theory Spec2Isabelle
  imports Complex_Main "HOL-Library.Product_Lexorder" "HOL-Library.Sublist"
begin

section \<open>Data model\<close>

text \<open>
  Coordinates are Python floats in the source. They are modelled as \<^typ>\<open>real\<close>: the
  arithmetic is exact, the rounding of IEEE doubles is not part of the model. Decimal
  literals of the source are written as fractions (\<open>0.5\<close> is \<open>1/2\<close>, \<open>0.3\<close> is
  \<open>3/10\<close>).
\<close>

text \<open>
  The box dictionaries of \<^verbatim>\<open>get_black_boxes\<close> (keys page, x0, y0, x1, y1) and the
  character dictionaries of \<^verbatim>\<open>get_text_positions\<close> (the same keys and text) in
  \<^verbatim>\<open>find_improper_redactions.py\<close> and \<^verbatim>\<open>test_box_text_overlap.py\<close>. The
  overlap test reads only the four coordinates, so it accepts both.
\<close>

record rectd =
  page :: nat
  x0 :: real
  y0 :: real
  x1 :: real
  y1 :: real

record chard = rectd +
  ch_text :: string

text \<open>The coordinate tuples \<open>(x0, y0, x1, y1)\<close> of \<^verbatim>\<open>detect_and_recover_redactions.py\<close>.\<close>

type_synonym bbox = "real \<times> real \<times> real \<times> real"

section \<open>Geometry\<close>

text \<open>\<^verbatim>\<open>boxes_overlap\<close> of \<^verbatim>\<open>find_improper_redactions.py\<close> (default threshold 0.3).\<close>

definition boxes_overlap :: "'a rectd_scheme \<Rightarrow> 'b rectd_scheme \<Rightarrow> real \<Rightarrow> bool" where
  "boxes_overlap box1 box2 threshold =
     (let x0_i = max (x0 box1) (x0 box2);
          y0_i = max (y0 box1) (y0 box2);
          x1_i = min (x1 box1) (x1 box2);
          y1_i = min (y1 box1) (y1 box2)
      in if x0_i \<ge> x1_i \<or> y0_i \<ge> y1_i then False
         else
           let intersection = (x1_i - x0_i) * (y1_i - y0_i);
               char_area = (x1 box2 - x0 box2) * (y1 box2 - y0 box2)
           in if char_area > 0 then intersection / char_area \<ge> threshold else False)"

text \<open>\<^verbatim>\<open>boxes_overlap\<close> of \<^verbatim>\<open>test_box_text_overlap.py\<close> (default threshold 0.5).\<close>

definition boxes_overlap_tbto :: "'a rectd_scheme \<Rightarrow> 'b rectd_scheme \<Rightarrow> real \<Rightarrow> bool" where
  "boxes_overlap_tbto box1 box2 threshold =
     (let x0_i = max (x0 box1) (x0 box2);
          y0_i = max (y0 box1) (y0 box2);
          x1_i = min (x1 box1) (x1 box2);
          y1_i = min (y1 box1) (y1 box2)
      in if x0_i \<ge> x1_i \<or> y0_i \<ge> y1_i then False
         else
           let intersection_area = (x1_i - x0_i) * (y1_i - y0_i);
               char_area = (x1 box2 - x0 box2) * (y1 box2 - y0 box2)
           in if char_area = 0 then False
              else let overlap_ratio = intersection_area / char_area
                   in overlap_ratio \<ge> threshold)"

text \<open>
  \<^verbatim>\<open>rectangles_overlap\<close> of \<^verbatim>\<open>detect_and_recover_redactions.py\<close>. The denominator is
  the area of \<open>bbox1\<close>, the first argument; its caller passes the character first.
\<close>

fun rectangles_overlap :: "bbox \<Rightarrow> bbox \<Rightarrow> real \<Rightarrow> bool" where
  "rectangles_overlap (x0_1, y0_1, x1_1, y1_1) (x0_2, y0_2, x1_2, y1_2) threshold =
     (let x0_i = max x0_1 x0_2;
          y0_i = max y0_1 y0_2;
          x1_i = min x1_1 x1_2;
          y1_i = min y1_1 y1_2
      in if x0_i \<ge> x1_i \<or> y0_i \<ge> y1_i then False
         else
           let intersection_area = (x1_i - x0_i) * (y1_i - y0_i);
               bbox1_area = (x1_1 - x0_1) * (y1_1 - y0_1)
           in if bbox1_area = 0 then False
              else let overlap_ratio = intersection_area / bbox1_area
                   in overlap_ratio \<ge> threshold)"

subsection \<open>The specified overlap ratio\<close>

text \<open>
  The ratio as the specification words it, for comparison with the three predicates of
  the source: the area of the intersection over the area of the reference rectangle
  \<open>b\<close>, and 0 when the rectangles are disjoint or \<open>b\<close> has no area.
\<close>

definition bbox_of :: "'a rectd_scheme \<Rightarrow> bbox" where
  "bbox_of r = (x0 r, y0 r, x1 r, y1 r)"

fun rect_area :: "bbox \<Rightarrow> real" where
  "rect_area (ax0, ay0, ax1, ay1) = (ax1 - ax0) * (ay1 - ay0)"

fun inter_area :: "bbox \<Rightarrow> bbox \<Rightarrow> real" where
  "inter_area (ax0, ay0, ax1, ay1) (bx0, by0, bx1, by1) =
     max 0 (min ax1 bx1 - max ax0 bx0) * max 0 (min ay1 by1 - max ay0 by0)"

fun disjoint_rects :: "bbox \<Rightarrow> bbox \<Rightarrow> bool" where
  "disjoint_rects (ax0, ay0, ax1, ay1) (bx0, by0, bx1, by1) =
     (min ax1 bx1 \<le> max ax0 bx0 \<or> min ay1 by1 \<le> max ay0 by0)"

definition overlapRatio :: "bbox \<Rightarrow> bbox \<Rightarrow> real" where
  "overlapRatio a b =
     (if disjoint_rects a b \<or> rect_area b = 0 then 0 else inter_area a b / rect_area b)"

text \<open>A well-formed rectangle (the PageRect invariant), and containment of \<open>b\<close> in \<open>a\<close>.\<close>

fun well_formed :: "bbox \<Rightarrow> bool" where
  "well_formed (ax0, ay0, ax1, ay1) = (ax0 \<le> ax1 \<and> ay0 \<le> ay1)"

fun contained_in :: "bbox \<Rightarrow> bbox \<Rightarrow> bool" where
  "contained_in (bx0, by0, bx1, by1) (ax0, ay0, ax1, ay1) =
     (ax0 \<le> bx0 \<and> ay0 \<le> by0 \<and> bx1 \<le> ax1 \<and> by1 \<le> ay1)"

section \<open>The documents the two libraries deliver\<close>

text \<open>
  The character and word dictionaries of pdfplumber. The source reads every key with
  \<^verbatim>\<open>.get(key, default)\<close>, so every key may be absent (\<open>None\<close>).
\<close>

record pobj =
  p_text :: "string option"
  p_x0 :: "real option"
  p_top :: "real option"
  p_x1 :: "real option"
  p_bottom :: "real option"
  p_size :: "real option"

definition get_or :: "'a option \<Rightarrow> 'a \<Rightarrow> 'a" where
  "get_or v d = (case v of None \<Rightarrow> d | Some a \<Rightarrow> a)"

text \<open>
  A drawing of \<^verbatim>\<open>page.get_drawings()\<close> and a block of
  \<^verbatim>\<open>page.get_text("dict")["blocks"]\<close> in PyMuPDF. An absent or falsy value is
  \<open>None\<close>; a fill colour is a tuple of channels.
\<close>

record drawing =
  d_type :: "string option"
  d_rect :: "bbox option"
  d_fill :: "real list option"

record block =
  b_type :: "int option"
  b_bbox :: "bbox option"

text \<open>
  A page as PyMuPDF reads it. \<open>None\<close> stands for a call that raises: then control
  leaves the loop over the pages for the \<^verbatim>\<open>except\<close> clause around it.
\<close>

record fitz_page =
  drawings :: "drawing list option"
  blocks :: "block list option"

text \<open>
  A file: its path, the pages PyMuPDF opens (\<open>None\<close> when \<^verbatim>\<open>fitz.open\<close> raises)
  and the character stream of each page in pdfplumber (\<open>None\<close> when
  \<^verbatim>\<open>pdfplumber.open\<close>, or \<^verbatim>\<open>page.chars\<close> of that page, raises).
\<close>

record pdf_file =
  path :: string
  fitz_doc :: "fitz_page list option"
  plumber_doc :: "pobj list option list option"

section \<open>Redaction boxes (detect\_and\_recover\_redactions.py)\<close>

text \<open>The tuples \<open>(page_num, x0, y0, x1, y1)\<close>.\<close>

type_synonym pbox = "nat \<times> bbox"

text \<open>The loop over the drawings of one page in \<^verbatim>\<open>detect_black_rectangles\<close>.\<close>

fun drawings_loop :: "nat \<Rightarrow> real \<Rightarrow> drawing list \<Rightarrow> pbox list \<Rightarrow> pbox list" where
  "drawings_loop page_num black_threshold [] redaction_boxes = redaction_boxes"
| "drawings_loop page_num black_threshold (d # ds) redaction_boxes =
     drawings_loop page_num black_threshold ds
       (if d_type d = Some ''f'' then
          (case (d_rect d, d_fill d) of
             (Some rect, Some color) \<Rightarrow>
               if color \<noteq> [] \<and> length color \<ge> 3 then
                 (let r = color ! 0; g = color ! 1; b = color ! 2
                  in if r \<le> black_threshold \<and> g \<le> black_threshold \<and> b \<le> black_threshold
                     then redaction_boxes @ [(page_num, rect)]
                     else redaction_boxes)
               else redaction_boxes
           | _ \<Rightarrow> redaction_boxes)
        else redaction_boxes)"

text \<open>The loop over the blocks of one page: every block of type 1 with a bbox.\<close>

fun blocks_loop :: "nat \<Rightarrow> block list \<Rightarrow> pbox list \<Rightarrow> pbox list" where
  "blocks_loop page_num [] redaction_boxes = redaction_boxes"
| "blocks_loop page_num (item # items) redaction_boxes =
     blocks_loop page_num items
       (if b_type item = Some 1 then
          (case b_bbox item of
             Some bbox \<Rightarrow> redaction_boxes @ [(page_num, bbox)]
           | None \<Rightarrow> redaction_boxes)
        else redaction_boxes)"

text \<open>
  The loop over the pages. A call that raises ends it: the \<^verbatim>\<open>except\<close> clause
  prints, and the boxes collected so far are returned.
\<close>

fun detect_pages :: "nat \<Rightarrow> real \<Rightarrow> fitz_page list \<Rightarrow> pbox list \<Rightarrow> pbox list" where
  "detect_pages page_num black_threshold [] redaction_boxes = redaction_boxes"
| "detect_pages page_num black_threshold (pg # pgs) redaction_boxes =
     (case drawings pg of
        None \<Rightarrow> redaction_boxes
      | Some ds \<Rightarrow>
          (let redaction_boxes = drawings_loop page_num black_threshold ds redaction_boxes
           in case blocks pg of
                None \<Rightarrow> redaction_boxes
              | Some items \<Rightarrow>
                  detect_pages (Suc page_num) black_threshold pgs
                    (blocks_loop page_num items redaction_boxes)))"

definition detect_black_rectangles :: "pdf_file \<Rightarrow> real \<Rightarrow> pbox list" where
  "detect_black_rectangles pdf black_threshold =
     (case fitz_doc pdf of
        None \<Rightarrow> []
      | Some doc \<Rightarrow> detect_pages 0 black_threshold doc [])"

section \<open>Text under the boxes (detect\_and\_recover\_redactions.py)\<close>

text \<open>An entry of \<open>redacted_chars\<close>: \<open>(page_num, text, char_bbox)\<close>.\<close>

type_synonym redacted_char = "nat \<times> string \<times> bbox"

definition char_bbox_of :: "pobj \<Rightarrow> bbox" where
  "char_bbox_of c =
     (get_or (p_x0 c) 0, get_or (p_top c) 0, get_or (p_x1 c) 0, get_or (p_bottom c) 0)"

text \<open>The inner loop over the boxes of the page, left by \<^verbatim>\<open>break\<close> at the first match.\<close>

fun boxes_loop ::
  "nat \<Rightarrow> pobj \<Rightarrow> real \<Rightarrow> pbox list \<Rightarrow> redacted_char list \<Rightarrow> redacted_char list" where
  "boxes_loop page_num c overlap_threshold [] redacted = redacted"
| "boxes_loop page_num c overlap_threshold (box # page_boxes) redacted =
     (let char_bbox = char_bbox_of c;
          box_rect = snd box
      in if rectangles_overlap char_bbox box_rect overlap_threshold
         then redacted @ [(page_num, get_or (p_text c) [], char_bbox)]
         else boxes_loop page_num c overlap_threshold page_boxes redacted)"

fun chars_loop ::
  "nat \<Rightarrow> real \<Rightarrow> pbox list \<Rightarrow> pobj list \<Rightarrow> redacted_char list \<Rightarrow> redacted_char list" where
  "chars_loop page_num overlap_threshold page_boxes [] redacted = redacted"
| "chars_loop page_num overlap_threshold page_boxes (c # cs) redacted =
     chars_loop page_num overlap_threshold page_boxes cs
       (boxes_loop page_num c overlap_threshold page_boxes redacted)"

fun check_pages ::
  "nat \<Rightarrow> real \<Rightarrow> pbox list \<Rightarrow> pobj list option list \<Rightarrow> redacted_char list
     \<Rightarrow> redacted_char list" where
  "check_pages page_num overlap_threshold redaction_boxes [] redacted = redacted"
| "check_pages page_num overlap_threshold redaction_boxes (pg # pgs) redacted =
     (case pg of
        None \<Rightarrow> redacted
      | Some cs \<Rightarrow>
          (let page_boxes = filter (\<lambda>box. fst box = page_num) redaction_boxes
           in check_pages (Suc page_num) overlap_threshold redaction_boxes pgs
                (chars_loop page_num overlap_threshold page_boxes cs redacted)))"

record text_check =
  has_redacted_text :: bool
  redacted_text_count :: nat
  redacted_chars :: "redacted_char list"

definition check_text_under_boxes :: "pdf_file \<Rightarrow> pbox list \<Rightarrow> real \<Rightarrow> text_check" where
  "check_text_under_boxes pdf redaction_boxes overlap_threshold =
     (if redaction_boxes = [] then
        \<lparr>has_redacted_text = False, redacted_text_count = 0, redacted_chars = []\<rparr>
      else
        (let redacted =
               (case plumber_doc pdf of
                  None \<Rightarrow> []
                | Some pgs \<Rightarrow> check_pages 0 overlap_threshold redaction_boxes pgs [])
         in \<lparr>has_redacted_text = length redacted > 0,
             redacted_text_count = length redacted,
             redacted_chars = redacted\<rparr>))"

text \<open>
  \<^verbatim>\<open>analyze_pdf_for_redactions\<close>. The two functions it calls catch their own
  exceptions, so its \<^verbatim>\<open>except\<close> clause is never entered and \<open>error\<close> stays
  \<open>None\<close>. The \<open>filename\<close> entry (the base name of the path) is left out.
\<close>

record analysis =
  a_path :: string
  has_redaction_boxes :: bool
  has_recoverable_text :: bool
  redaction_box_count :: nat
  redacted_char_count :: nat
  should_process :: bool
  error :: "string option"

definition analyze_pdf_for_redactions :: "pdf_file \<Rightarrow> analysis" where
  "analyze_pdf_for_redactions pdf =
     (let result = \<lparr>a_path = path pdf, has_redaction_boxes = False,
                     has_recoverable_text = False, redaction_box_count = 0,
                     redacted_char_count = 0, should_process = False, error = None\<rparr>;
          redaction_boxes = detect_black_rectangles pdf (15 / 100);
          result = result\<lparr>has_redaction_boxes := length redaction_boxes > 0\<rparr>;
          result = result\<lparr>redaction_box_count := length redaction_boxes\<rparr>
      in if \<not> has_redaction_boxes result then result
         else
           (let text_check = check_text_under_boxes pdf redaction_boxes (1 / 2);
                result = result\<lparr>has_recoverable_text := has_redacted_text text_check\<rparr>;
                result = result\<lparr>redacted_char_count := redacted_text_count text_check\<rparr>;
                result = result\<lparr>should_process :=
                           has_redaction_boxes result \<and> has_recoverable_text result\<rparr>
            in result))"

section \<open>Recovered text per box (find\_improper\_redactions.py)\<close>

text \<open>
  \<^verbatim>\<open>get_black_boxes\<close>: every drawing with a fill colour of at least three channels,
  all at most 0.2, and a rect. A call that raises ends the loop over the pages
  (\<^verbatim>\<open>except: pass\<close>) with the boxes collected so far.
\<close>

fun gbb_drawings :: "nat \<Rightarrow> drawing list \<Rightarrow> rectd list \<Rightarrow> rectd list" where
  "gbb_drawings page_num [] boxes = boxes"
| "gbb_drawings page_num (d # ds) boxes =
     gbb_drawings page_num ds
       (case (d_fill d, d_rect d) of
          (Some color, Some (rx0, ry0, rx1, ry1)) \<Rightarrow>
            if color \<noteq> [] \<and> length color \<ge> 3 then
              (let r = color ! 0; g = color ! 1; b = color ! 2
               in if r \<le> 2 / 10 \<and> g \<le> 2 / 10 \<and> b \<le> 2 / 10
                  then boxes @ [\<lparr>page = page_num, x0 = rx0, y0 = ry0, x1 = rx1, y1 = ry1\<rparr>]
                  else boxes)
            else boxes
        | _ \<Rightarrow> boxes)"

fun gbb_pages :: "nat \<Rightarrow> fitz_page list \<Rightarrow> rectd list \<Rightarrow> rectd list" where
  "gbb_pages page_num [] boxes = boxes"
| "gbb_pages page_num (pg # pgs) boxes =
     (case drawings pg of
        None \<Rightarrow> boxes
      | Some ds \<Rightarrow> gbb_pages (Suc page_num) pgs (gbb_drawings page_num ds boxes))"

definition get_black_boxes :: "pdf_file \<Rightarrow> rectd list" where
  "get_black_boxes pdf =
     (case fitz_doc pdf of None \<Rightarrow> [] | Some doc \<Rightarrow> gbb_pages 0 doc [])"

text \<open>
  \<^verbatim>\<open>get_text_positions\<close>: one dictionary per character, \<open>top\<close> and \<open>bottom\<close> renamed
  to \<open>y0\<close> and \<open>y1\<close>. The \<^verbatim>\<open>try\<close> encloses the loop over the pages.
\<close>

definition char_dict :: "nat \<Rightarrow> pobj \<Rightarrow> chard" where
  "char_dict page_num c =
     \<lparr>page = page_num,
      x0 = get_or (p_x0 c) 0,
      y0 = get_or (p_top c) 0,
      x1 = get_or (p_x1 c) 0,
      y1 = get_or (p_bottom c) 0,
      ch_text = get_or (p_text c) []\<rparr>"

fun gtp_chars :: "nat \<Rightarrow> pobj list \<Rightarrow> chard list \<Rightarrow> chard list" where
  "gtp_chars page_num [] chars = chars"
| "gtp_chars page_num (c # cs) chars = gtp_chars page_num cs (chars @ [char_dict page_num c])"

fun gtp_pages :: "nat \<Rightarrow> pobj list option list \<Rightarrow> chard list \<Rightarrow> chard list" where
  "gtp_pages page_num [] chars = chars"
| "gtp_pages page_num (pg # pgs) chars =
     (case pg of
        None \<Rightarrow> chars
      | Some cs \<Rightarrow> gtp_pages (Suc page_num) pgs (gtp_chars page_num cs chars))"

definition get_text_positions :: "pdf_file \<Rightarrow> chard list" where
  "get_text_positions pdf =
     (case plumber_doc pdf of None \<Rightarrow> [] | Some pgs \<Rightarrow> gtp_pages 0 pgs [])"

text \<open>An entry of \<open>recoverable_text\<close>, and the loop of \<^verbatim>\<open>test_pdf\<close> that builds them.\<close>

record region =
  r_page :: nat
  r_text :: string
  char_count :: nat

fun recover_loop :: "rectd list \<Rightarrow> chard list \<Rightarrow> region list \<Rightarrow> region list" where
  "recover_loop [] text_chars recoverable_text = recoverable_text"
| "recover_loop (box # black_boxes) text_chars recoverable_text =
     (let page_chars = filter (\<lambda>c. page c = page box) text_chars;
          box_chars = filter (\<lambda>c. boxes_overlap box c (3 / 10)) page_chars
      in recover_loop black_boxes text_chars
           (if box_chars \<noteq> [] then
              recoverable_text @
                [\<lparr>r_page = page box,
                  r_text = concat (map ch_text box_chars),
                  char_count = length box_chars\<rparr>]
            else recoverable_text))"

record report =
  rp_path :: string
  rp_black_boxes :: nat
  rp_recoverable_areas :: nat
  rp_total_chars :: nat
  rp_sample_text :: "region list"

definition test_pdf :: "pdf_file \<Rightarrow> report option" where
  "test_pdf pdf =
     (let black_boxes = get_black_boxes pdf
      in if black_boxes = [] then None
         else
           (let text_chars = get_text_positions pdf
            in if text_chars = [] then None
               else
                 (let recoverable_text = recover_loop black_boxes text_chars []
                  in if recoverable_text \<noteq> [] then
                       Some \<lparr>rp_path = path pdf,
                             rp_black_boxes = length black_boxes,
                             rp_recoverable_areas = length recoverable_text,
                             rp_total_chars = sum_list (map char_count recoverable_text),
                             rp_sample_text = take 5 recoverable_text\<rparr>
                     else None)))"

text \<open>
  Step 3 of \<^verbatim>\<open>test_redaction_overlap\<close> in \<^verbatim>\<open>test_box_text_overlap.py\<close>: the list
  \<open>overlaps\<close> of boxes with the characters under them (threshold 0.3), and the hidden
  text it prints for an entry.
\<close>

fun box_overlaps_loop :: "rectd \<Rightarrow> chard list \<Rightarrow> chard list \<Rightarrow> chard list" where
  "box_overlaps_loop box [] box_overlaps = box_overlaps"
| "box_overlaps_loop box (c # page_chars) box_overlaps =
     box_overlaps_loop box page_chars
       (if boxes_overlap_tbto box c (3 / 10) then box_overlaps @ [c] else box_overlaps)"

fun overlaps_loop ::
  "rectd list \<Rightarrow> chard list \<Rightarrow> (rectd \<times> chard list) list \<Rightarrow> (rectd \<times> chard list) list" where
  "overlaps_loop [] text_chars overlaps = overlaps"
| "overlaps_loop (box # black_boxes) text_chars overlaps =
     (let page_chars = filter (\<lambda>c. page c = page box) text_chars;
          box_overlaps = box_overlaps_loop box page_chars []
      in overlaps_loop black_boxes text_chars
           (if box_overlaps \<noteq> [] then overlaps @ [(box, box_overlaps)] else overlaps))"

definition hidden_text :: "rectd \<times> chard list \<Rightarrow> string" where
  "hidden_text overlap = concat (map ch_text (snd overlap))"

section \<open>Line reconstruction (redact\_extract\_optimized.py)\<close>

text \<open>The reads of a word dictionary, with the defaults of the source.\<close>

definition w_top :: "pobj \<Rightarrow> real" where
  "w_top w = get_or (p_top w) 0"

definition w_x0 :: "pobj \<Rightarrow> real" where
  "w_x0 w = get_or (p_x0 w) 0"

definition w_x1 :: "pobj \<Rightarrow> real" where
  "w_x1 w = get_or (p_x1 w) (get_or (p_x0 w) 0)"

definition w_text :: "pobj \<Rightarrow> string" where
  "w_text w = get_or (p_text w) []"

text \<open>
  The loop of \<^verbatim>\<open>group_words_into_lines\<close> over the sorted words. Its state is
  \<open>(lines, current, current_top)\<close>; \<open>current_top\<close> is \<open>None\<close> before the first word.
\<close>

fun group_loop ::
  "real \<Rightarrow> pobj list \<Rightarrow> pobj list list \<times> pobj list \<times> real option
     \<Rightarrow> pobj list list \<times> pobj list \<times> real option" where
  "group_loop line_tol [] st = st"
| "group_loop line_tol (w # ws) (lines, current, current_top) =
     (let top_y = w_top w
      in case current_top of
           None \<Rightarrow> group_loop line_tol ws (lines, [w], Some top_y)
         | Some ct \<Rightarrow>
             if \<bar>top_y - ct\<bar> \<le> line_tol then
               (let current = current @ [w];
                    ct = (ct * real (length current - 1) + top_y) / real (length current)
                in group_loop line_tol ws (lines, current, Some ct))
             else group_loop line_tol ws (lines @ [current], [w], Some top_y))"

definition group_words_into_lines :: "pobj list \<Rightarrow> real \<Rightarrow> pobj list list" where
  "group_words_into_lines words line_tol =
     (if words = [] then []
      else
        (let words = sort_key (\<lambda>w. (w_top w, w_x0 w)) words;
             (lines, current, current_top) = group_loop line_tol words ([], [], None)
         in if current \<noteq> [] then lines @ [current] else lines))"

text \<open>Python's \<^verbatim>\<open>round\<close> of a float to an integer: to the nearest, a tie to the even one.\<close>

definition py_round :: "real \<Rightarrow> int" where
  "py_round x =
     (let f = \<lfloor>x\<rfloor>; d = x - of_int f
      in if d < 1 / 2 then f
         else if d > 1 / 2 then f + 1
         else if even f then f else f + 1)"

text \<open>
  The loop of \<^verbatim>\<open>build_line_text\<close> over the words after the first. Its state is
  \<open>(parts, prev_x1, last_x1)\<close>. A string times a negative number is empty in Python,
  as \<open>replicate (nat n)\<close> is.
\<close>

fun spacing_loop ::
  "real \<Rightarrow> int \<Rightarrow> pobj list \<Rightarrow> string list \<times> real \<times> real \<Rightarrow> string list \<times> real \<times> real" where
  "spacing_loop space_unit_pts min_spaces [] st = st"
| "spacing_loop space_unit_pts min_spaces (w # ws) (parts, prev_x1, last_x1) =
     (let text = w_text w;
          wx0 = w_x0 w;
          wx1 = get_or (p_x1 w) wx0;
          gap = wx0 - prev_x1;
          parts =
            (if gap > 0 then
               (let n_spaces = py_round (gap / max (1 / 2) space_unit_pts);
                    n_spaces = max min_spaces n_spaces
                in parts @ [replicate (nat n_spaces) CHR '' ''])
             else parts @ [if gap > - space_unit_pts * (3 / 10) then '' '' else '''']);
          parts = parts @ [text]
      in spacing_loop space_unit_pts min_spaces ws (parts, max prev_x1 wx1, max last_x1 wx1))"

datatype py_error = IndexError

text \<open>
  \<^verbatim>\<open>build_line_text\<close> returns \<open>(text, x0, x1, top, font_size_est)\<close>. On an empty
  list of words the read of \<open>sorted(...)[0]\<close> raises IndexError.
\<close>

definition build_line_text ::
  "pobj list \<Rightarrow> real \<Rightarrow> int \<Rightarrow> py_error + (string \<times> real \<times> real \<times> real \<times> real)" where
  "build_line_text line_words space_unit_pts min_spaces =
     (let line_words = sort_key w_x0 line_words;
          sizes = List.map_filter p_size line_words;
          font_size =
            (if sizes \<noteq> [] then sort sizes ! (length sizes div 2)
             else
               (let hs = sort (map (\<lambda>w. let top_y = w_top w;
                                            bottom = get_or (p_bottom w) (top_y + 10)
                                        in max 6 (bottom - top_y)) line_words)
                in if hs \<noteq> [] then hs ! (length hs div 2) else 10))
      in case line_words of
           [] \<Rightarrow> Inl IndexError
         | w0 # rest \<Rightarrow>
             (let top_med = sort (map w_top line_words) ! (length line_words div 2);
                  first_x0 = w_x0 w0;
                  last_x1 = w_x1 w0;
                  prev_x1 = w_x1 w0;
                  (parts, prev_x1, last_x1) =
                    spacing_loop space_unit_pts min_spaces rest ([w_text w0], prev_x1, last_x1)
              in Inr (concat parts, first_x0, last_x1, top_med, font_size)))"

text \<open>
  The whitespace \<^verbatim>\<open>str.strip\<close> removes, among the ASCII characters; a line is kept
  when a character remains.
\<close>

definition py_isspace :: "char \<Rightarrow> bool" where
  "py_isspace c = (of_char c \<in> {9, 10, 11, 12, 13, 28, 29, 30, 31, 32 :: nat})"

definition strip_nonempty :: "string \<Rightarrow> bool" where
  "strip_nonempty s = list_ex (\<lambda>c. \<not> py_isspace c) s"

text \<open>
  \<^verbatim>\<open>process_single_page\<close>, from the words \<open>extract_words\<close> returned for the page:
  the list \<open>out\<close> of \<open>(line_text, x0, top, font_size)\<close>.
\<close>

fun lines_loop ::
  "real \<Rightarrow> int \<Rightarrow> pobj list list \<Rightarrow> (string \<times> real \<times> real \<times> real) list
     \<Rightarrow> py_error + (string \<times> real \<times> real \<times> real) list" where
  "lines_loop space_unit_pts min_spaces [] out = Inr out"
| "lines_loop space_unit_pts min_spaces (lw # lines) out =
     (case build_line_text lw space_unit_pts min_spaces of
        Inl e \<Rightarrow> Inl e
      | Inr (line_text, lx0, lx1, top_y, font_size) \<Rightarrow>
          lines_loop space_unit_pts min_spaces lines
            (if strip_nonempty line_text then out @ [(line_text, lx0, top_y, font_size)] else out))"

definition process_single_page ::
  "pobj list \<Rightarrow> real \<Rightarrow> real \<Rightarrow> int \<Rightarrow> py_error + (string \<times> real \<times> real \<times> real) list" where
  "process_single_page words line_tol space_unit_pts min_spaces =
     lines_loop space_unit_pts min_spaces (group_words_into_lines words line_tol) []"

section \<open>Notions used in the statements\<close>

text \<open>
  The number of glyphs of a document (an unreadable page has none), and the glyphs of
  one page.
\<close>

definition glyph_count :: "pdf_file \<Rightarrow> nat" where
  "glyph_count pdf =
     (case plumber_doc pdf of
        None \<Rightarrow> 0
      | Some pgs \<Rightarrow> sum_list (map (\<lambda>pg. case pg of None \<Rightarrow> 0 | Some cs \<Rightarrow> length cs) pgs))"

definition glyphs_on_page :: "pdf_file \<Rightarrow> nat \<Rightarrow> pobj list" where
  "glyphs_on_page pdf n =
     (case plumber_doc pdf of
        None \<Rightarrow> []
      | Some pgs \<Rightarrow>
          if n < length pgs then (case pgs ! n of None \<Rightarrow> [] | Some cs \<Rightarrow> cs) else [])"

text \<open>
  A character matches when some box of its page passes the overlap test; the entry it
  then contributes to \<open>redacted_chars\<close>.
\<close>

definition matches_some_box :: "real \<Rightarrow> pbox list \<Rightarrow> pobj \<Rightarrow> bool" where
  "matches_some_box t page_boxes c =
     list_ex (\<lambda>box. rectangles_overlap (char_bbox_of c) (snd box) t) page_boxes"

definition redacted_entry :: "nat \<Rightarrow> pobj \<Rightarrow> redacted_char" where
  "redacted_entry n c = (n, get_or (p_text c) [], char_bbox_of c)"

text \<open>
  Extraction and matching with every page on its own, as the specification words the
  isolation of a page that fails: such a page contributes nothing, every other page
  contributes what it holds.
\<close>

definition page_glyphs :: "nat \<times> pobj list option \<Rightarrow> chard list" where
  "page_glyphs np = (case snd np of None \<Rightarrow> [] | Some cs \<Rightarrow> map (char_dict (fst np)) cs)"

definition isolated_get_text_positions :: "pdf_file \<Rightarrow> chard list" where
  "isolated_get_text_positions pdf =
     (case plumber_doc pdf of
        None \<Rightarrow> []
      | Some pgs \<Rightarrow> concat (map page_glyphs (enumerate 0 pgs)))"

definition page_matches :: "real \<Rightarrow> pbox list \<Rightarrow> nat \<times> pobj list option \<Rightarrow> redacted_char list" where
  "page_matches t boxes np =
     (case snd np of
        None \<Rightarrow> []
      | Some cs \<Rightarrow>
          map (redacted_entry (fst np))
            (filter (matches_some_box t (filter (\<lambda>box. fst box = fst np) boxes)) cs))"

definition isolated_redacted_chars :: "pdf_file \<Rightarrow> pbox list \<Rightarrow> real \<Rightarrow> redacted_char list" where
  "isolated_redacted_chars pdf boxes t =
     (if boxes = [] then []
      else case plumber_doc pdf of
             None \<Rightarrow> []
           | Some pgs \<Rightarrow> concat (map (page_matches t boxes) (enumerate 0 pgs)))"

text \<open>The document cut before its first unreadable page.\<close>

definition readable_prefix :: "pdf_file \<Rightarrow> pdf_file" where
  "readable_prefix pdf =
     pdf\<lparr>plumber_doc := map_option (takeWhile (\<lambda>pg. pg \<noteq> None)) (plumber_doc pdf)\<rparr>"

text \<open>
  A page PyMuPDF reads without raising; a filled drawing that passes the darkness test;
  an image block; and the boxes one page contributes.
\<close>

definition readable :: "fitz_page \<Rightarrow> bool" where
  "readable pg = (drawings pg \<noteq> None \<and> blocks pg \<noteq> None)"

definition is_dark_fill :: "real \<Rightarrow> drawing \<Rightarrow> bool" where
  "is_dark_fill thr d =
     (d_type d = Some ''f'' \<and>
      (case d_fill d of
         None \<Rightarrow> False
       | Some color \<Rightarrow> length color \<ge> 3 \<and> color ! 0 \<le> thr \<and> color ! 1 \<le> thr \<and> color ! 2 \<le> thr))"

definition is_image_block :: "block \<Rightarrow> bool" where
  "is_image_block b = (b_type b = Some 1)"

definition dark_boxes :: "nat \<Rightarrow> real \<Rightarrow> drawing list \<Rightarrow> pbox list" where
  "dark_boxes n thr ds =
     List.map_filter (\<lambda>d. if is_dark_fill thr d then map_option (Pair n) (d_rect d) else None) ds"

definition image_boxes :: "nat \<Rightarrow> block list \<Rightarrow> pbox list" where
  "image_boxes n items =
     List.map_filter (\<lambda>b. if is_image_block b then map_option (Pair n) (b_bbox b) else None) items"

text \<open>
  The glyphs that match a box (overlap ratio of the glyph at least the threshold, same
  page), in the order of the character list; and the entries a box contributes to
  \<open>recoverable_text\<close> and to \<open>overlaps\<close>.
\<close>

definition matching_glyphs :: "rectd \<Rightarrow> chard list \<Rightarrow> real \<Rightarrow> chard list" where
  "matching_glyphs box cs t =
     filter (\<lambda>c. page c = page box \<and> t \<le> overlapRatio (bbox_of box) (bbox_of c)) cs"

definition box_region :: "rectd \<Rightarrow> chard list \<Rightarrow> region option" where
  "box_region box cs =
     (let m = matching_glyphs box cs (3 / 10)
      in if m = [] then None
         else Some \<lparr>r_page = page box, r_text = concat (map ch_text m), char_count = length m\<rparr>)"

definition box_overlap_entry :: "rectd \<Rightarrow> chard list \<Rightarrow> (rectd \<times> chard list) option" where
  "box_overlap_entry box cs =
     (let m = matching_glyphs box cs (3 / 10) in if m = [] then None else Some (box, m))"

text \<open>
  Line clustering as the specification words it: a word joins the current cluster when
  its top is within the tolerance of the arithmetic mean of the tops of the cluster,
  and otherwise closes it and opens the next.
\<close>

definition mean :: "real list \<Rightarrow> real" where
  "mean xs = sum_list xs / real (length xs)"

fun spec_cluster :: "real \<Rightarrow> pobj list \<Rightarrow> pobj list \<Rightarrow> pobj list list" where
  "spec_cluster tol cur [] = [cur]"
| "spec_cluster tol cur (w # ws) =
     (if \<bar>w_top w - mean (map w_top cur)\<bar> \<le> tol
      then spec_cluster tol (cur @ [w]) ws
      else cur # spec_cluster tol [w] ws)"

definition spec_group_words_into_lines :: "pobj list \<Rightarrow> real \<Rightarrow> pobj list list" where
  "spec_group_words_into_lines words tol =
     (case sort_key (\<lambda>w. (w_top w, w_x0 w)) words of
        [] \<Rightarrow> []
      | w # ws \<Rightarrow> spec_cluster tol [w] ws)"

text \<open>
  The characters inserted for a gap, as the specification words them; the text of a
  cluster with every gap measured from the largest \<open>x1\<close> among the words before, and
  with every gap measured from the \<open>x1\<close> of the word just before.
\<close>

definition separator :: "real \<Rightarrow> int \<Rightarrow> real \<Rightarrow> string" where
  "separator space_unit_pts min_spaces gap =
     (if gap > 0
      then replicate (nat (max min_spaces (py_round (gap / max (1 / 2) space_unit_pts)))) CHR '' ''
      else if gap > - (3 / 10) * space_unit_pts then '' '' else [])"

definition running_max_text :: "real \<Rightarrow> int \<Rightarrow> pobj list \<Rightarrow> string" where
  "running_max_text space_unit_pts min_spaces sw =
     w_text (sw ! 0) @
     concat (map (\<lambda>i. separator space_unit_pts min_spaces
                        (w_x0 (sw ! i) - Max (w_x1 ` set (take i sw))) @ w_text (sw ! i))
               [1..<length sw])"

definition claimed_text :: "real \<Rightarrow> int \<Rightarrow> pobj list \<Rightarrow> string" where
  "claimed_text space_unit_pts min_spaces sw =
     w_text (sw ! 0) @
     concat (map (\<lambda>i. separator space_unit_pts min_spaces
                        (w_x0 (sw ! i) - w_x1 (sw ! (i - 1))) @ w_text (sw ! i))
               [1..<length sw])"

section \<open>Example documents\<close>

definition glyph :: "string \<Rightarrow> real \<Rightarrow> real \<Rightarrow> real \<Rightarrow> real \<Rightarrow> pobj" where
  "glyph s gx0 gtop gx1 gbottom =
     \<lparr>p_text = Some s, p_x0 = Some gx0, p_top = Some gtop, p_x1 = Some gx1,
      p_bottom = Some gbottom, p_size = None\<rparr>"

definition black_fill :: "bbox \<Rightarrow> drawing" where
  "black_fill r = \<lparr>d_type = Some ''f'', d_rect = Some r, d_fill = Some [0, 0, 0]\<rparr>"

text \<open>
  Scenario 1: one page, a black box \<open>(0, 0, 100, 20)\<close> and the six glyphs of SECRET
  inside it. Scenario 2: the same box and no glyph on the page.
\<close>

definition scenario1_pdf :: pdf_file where
  "scenario1_pdf =
     \<lparr>path = ''scenario1.pdf'',
      fitz_doc = Some [\<lparr>drawings = Some [black_fill (0, 0, 100, 20)], blocks = Some []\<rparr>],
      plumber_doc =
        Some [Some [glyph ''S'' 0 5 10 15, glyph ''E'' 10 5 20 15, glyph ''C'' 20 5 30 15,
                    glyph ''R'' 30 5 40 15, glyph ''E'' 40 5 50 15, glyph ''T'' 50 5 60 15]]\<rparr>"

definition scenario2_pdf :: pdf_file where
  "scenario2_pdf =
     \<lparr>path = ''scenario2.pdf'',
      fitz_doc = Some [\<lparr>drawings = Some [black_fill (0, 0, 100, 20)], blocks = Some []\<rparr>],
      plumber_doc = Some [Some []]\<rparr>"

text \<open>
  Scenario 3: the two words, with the keys the scenario gives (no \<open>bottom\<close>, no
  \<open>size\<close>).
\<close>

definition scenario3_hello :: pobj where
  "scenario3_hello =
     \<lparr>p_text = Some ''Hello'', p_x0 = Some 0, p_top = Some 100, p_x1 = Some 30,
      p_bottom = None, p_size = None\<rparr>"

definition scenario3_world :: pobj where
  "scenario3_world =
     \<lparr>p_text = Some ''World'', p_x0 = Some 40, p_top = Some (201 / 2), p_x1 = Some 70,
      p_bottom = None, p_size = None\<rparr>"

text \<open>
  A page with a white filled drawing, a black filled drawing, a text block (type 0) and
  an image block (type 1).
\<close>

definition image_pdf :: pdf_file where
  "image_pdf =
     \<lparr>path = ''image.pdf'',
      fitz_doc =
        Some [\<lparr>drawings =
                 Some [\<lparr>d_type = Some ''f'', d_rect = Some (0, 30, 100, 50),
                        d_fill = Some [1, 1, 1]\<rparr>,
                       black_fill (0, 0, 100, 20)],
               blocks =
                 Some [\<lparr>b_type = Some 0, b_bbox = Some (0, 0, 200, 50)\<rparr>,
                       \<lparr>b_type = Some 1, b_bbox = Some (10, 60, 90, 80)\<rparr>]\<rparr>],
      plumber_doc = Some [Some []]\<rparr>"

text \<open>Two black boxes that overlap each other, and one glyph under both.\<close>

definition overlap_pdf :: pdf_file where
  "overlap_pdf =
     \<lparr>path = ''overlap.pdf'',
      fitz_doc =
        Some [\<lparr>drawings = Some [black_fill (0, 0, 100, 20), black_fill (50, 0, 150, 20)],
               blocks = Some []\<rparr>],
      plumber_doc = Some [Some [glyph ''X'' 60 5 70 15]]\<rparr>"

text \<open>Three pages of one glyph each; reading the characters of the second raises.\<close>

definition broken_page_pdf :: pdf_file where
  "broken_page_pdf =
     \<lparr>path = ''broken.pdf'',
      fitz_doc =
        Some [\<lparr>drawings = Some [black_fill (0, 0, 100, 20)], blocks = Some []\<rparr>,
              \<lparr>drawings = Some [], blocks = Some []\<rparr>,
              \<lparr>drawings = Some [black_fill (0, 0, 100, 20)], blocks = Some []\<rparr>],
      plumber_doc =
        Some [Some [glyph ''A'' 0 5 10 15], None, Some [glyph ''B'' 0 5 10 15]]\<rparr>"

text \<open>
  A page whose character stream holds B (at x from 10 to 20) before A (at x from 0 to
  10), both under one black box.
\<close>

definition order_pdf :: pdf_file where
  "order_pdf =
     \<lparr>path = ''order.pdf'',
      fitz_doc = Some [\<lparr>drawings = Some [black_fill (0, 0, 100, 20)], blocks = Some []\<rparr>],
      plumber_doc = Some [Some [glyph ''B'' 10 5 20 15, glyph ''A'' 0 5 10 15]]\<rparr>"

text \<open>A word of the next line, and three words of one line of which the first spans the others.\<close>

definition next_line_word :: pobj where
  "next_line_word =
     \<lparr>p_text = Some ''Next'', p_x0 = Some 0, p_top = Some 120, p_x1 = Some 25,
      p_bottom = None, p_size = None\<rparr>"

definition overlapping_words :: "pobj list" where
  "overlapping_words =
     [glyph ''A'' 0 0 100 10, glyph ''B'' 10 0 20 10, glyph ''C'' 30 0 40 10]"

section \<open>Properties of the geometry\<close>

lemma disjoint_iff_no_area: "disjoint_rects a b \<longleftrightarrow> inter_area a b = 0"
  by (cases a; cases b) (auto simp: max_def min_def)

lemma rectangles_overlap_unfold:
  "rectangles_overlap (gx0, gy0, gx1, gy1) (ax0, ay0, ax1, ay1) t \<longleftrightarrow>
     \<not> disjoint_rects (ax0, ay0, ax1, ay1) (gx0, gy0, gx1, gy1) \<and>
     (gx1 - gx0) * (gy1 - gy0) \<noteq> 0 \<and>
     t \<le> (min ax1 gx1 - max ax0 gx0) * (min ay1 gy1 - max ay0 gy0)
          / ((gx1 - gx0) * (gy1 - gy0))"
  by (simp add: Let_def max.commute min.commute not_le
        del: max_less_iff_conj min_less_iff_conj less_max_iff_disj)

lemma inter_area_pos:
  assumes "\<not> disjoint_rects (ax0, ay0, ax1, ay1) (gx0, gy0, gx1, gy1)"
  shows "inter_area (ax0, ay0, ax1, ay1) (gx0, gy0, gx1, gy1) =
         (min ax1 gx1 - max ax0 gx0) * (min ay1 gy1 - max ay0 gy0)"
proof -
  from assms have "0 < min ax1 gx1 - max ax0 gx0" "0 < min ay1 gy1 - max ay0 gy0"
    by (simp_all add: not_le del: max_less_iff_conj min_less_iff_conj less_max_iff_disj)
  then show ?thesis
    by (simp add: max_absorb2 del: max_less_iff_conj min_less_iff_conj less_max_iff_disj)
qed

lemma rectangles_overlap_ratio:
  assumes "0 < t"
  shows "rectangles_overlap g a t \<longleftrightarrow> t \<le> overlapRatio a g"
proof (cases g; cases a)
  fix gx0 gy0 gx1 gy1 ax0 ay0 ax1 ay1
  assume g: "g = (gx0, gy0, gx1, gy1)" and a: "a = (ax0, ay0, ax1, ay1)"
  show ?thesis
  proof (cases "disjoint_rects a g \<or> rect_area g = 0")
    case True
    then show ?thesis
      using assms unfolding g a rectangles_overlap_unfold overlapRatio_def by auto
  next
    case False
    then show ?thesis
      unfolding g a rectangles_overlap_unfold overlapRatio_def
      using inter_area_pos [of ax0 ay0 ax1 ay1 gx0 gy0 gx1 gy1] by simp
  qed
qed

lemma nonempty_intersection_positive_area:
  assumes "\<not> disjoint_rects a g"
  shows "0 < rect_area g"
proof (cases g; cases a)
  fix gx0 gy0 gx1 gy1 ax0 ay0 ax1 ay1
  assume g: "g = (gx0, gy0, gx1, gy1)" and a: "a = (ax0, ay0, ax1, ay1)"
  from assms have "gx0 < gx1" "gy0 < gy1"
    by (auto simp: g a)
  then show ?thesis
    by (simp add: g)
qed

lemma boxes_overlap_bbox:
  "boxes_overlap a g t \<longleftrightarrow> rectangles_overlap (bbox_of g) (bbox_of a) t"
proof (cases "disjoint_rects (bbox_of a) (bbox_of g)")
  case True
  then show ?thesis
    unfolding bbox_of_def rectangles_overlap_unfold
    by (simp add: boxes_overlap_def Let_def not_le
          del: max_less_iff_conj min_less_iff_conj less_max_iff_disj)
next
  case False
  from nonempty_intersection_positive_area [OF False]
  have pos: "0 < (x1 g - x0 g) * (y1 g - y0 g)"
    by (simp add: bbox_of_def)
  then have "x1 g \<noteq> x0 g" "y1 g \<noteq> y0 g"
    by auto
  with False pos show ?thesis
    unfolding bbox_of_def rectangles_overlap_unfold
    by (simp add: boxes_overlap_def Let_def not_le
          del: max_less_iff_conj min_less_iff_conj less_max_iff_disj)
qed

lemma boxes_overlap_tbto_bbox:
  "boxes_overlap_tbto a g t \<longleftrightarrow> rectangles_overlap (bbox_of g) (bbox_of a) t"
  unfolding bbox_of_def rectangles_overlap_unfold
  by (simp add: boxes_overlap_tbto_def Let_def not_le
        del: max_less_iff_conj min_less_iff_conj less_max_iff_disj)

lemma contained_ratio_one:
  assumes "well_formed g" and "0 < rect_area g" and "contained_in g a"
  shows "overlapRatio a g = 1"
proof (cases g; cases a)
  fix gx0 gy0 gx1 gy1 ax0 ay0 ax1 ay1
  assume g: "g = (gx0, gy0, gx1, gy1)" and a: "a = (ax0, ay0, ax1, ay1)"
  from assms(1,2) have lt: "gx0 < gx1" "gy0 < gy1"
    by (auto simp: g zero_less_mult_iff)
  from assms(3) have c: "ax0 \<le> gx0" "ay0 \<le> gy0" "gx1 \<le> ax1" "gy1 \<le> ay1"
    by (simp_all add: g a)
  have "min ax1 gx1 = gx1" "max ax0 gx0 = gx0" "min ay1 gy1 = gy1" "max ay0 gy0 = gy0"
    using c by simp_all
  then show ?thesis
    using lt by (simp add: g a overlapRatio_def)
qed

section \<open>The overlap ratio and its threshold\<close>

text \<open>
  C1 (as amended). The three overlap predicates are threshold tests of one ratio: the
  area of the intersection divided by the area of the glyph (character) rectangle. The
  glyph is the second argument of \<^verbatim>\<open>boxes_overlap\<close> and the first argument of
  \<^verbatim>\<open>rectangles_overlap\<close>. The ratio is 0, and nothing matches, when the rectangles
  are disjoint or the glyph has no area.
\<close>

theorem overlap_ratio_glyph_denominator:
  assumes "0 < t"
  shows "(boxes_overlap a g t \<longleftrightarrow> t \<le> overlapRatio (bbox_of a) (bbox_of g)) \<and>
         (boxes_overlap_tbto a g t \<longleftrightarrow> t \<le> overlapRatio (bbox_of a) (bbox_of g)) \<and>
         (rectangles_overlap gr ar t \<longleftrightarrow> t \<le> overlapRatio ar gr) \<and>
         (disjoint_rects ar gr \<or> rect_area gr = 0 \<longrightarrow>
            overlapRatio ar gr = 0 \<and> \<not> rectangles_overlap gr ar t) \<and>
         (\<not> disjoint_rects ar gr \<and> rect_area gr \<noteq> 0 \<longrightarrow>
            overlapRatio ar gr = inter_area ar gr / rect_area gr)"
proof -
  have r: "rectangles_overlap gr ar t \<longleftrightarrow> t \<le> overlapRatio ar gr" for gr ar
    using assms by (rule rectangles_overlap_ratio)
  have zero: "overlapRatio ar gr = 0" if "disjoint_rects ar gr \<or> rect_area gr = 0"
    using that by (simp add: overlapRatio_def)
  have "\<not> rectangles_overlap gr ar t" if "disjoint_rects ar gr \<or> rect_area gr = 0"
    using zero [OF that] assms by (simp add: r)
  moreover have "overlapRatio ar gr = inter_area ar gr / rect_area gr"
    if "\<not> disjoint_rects ar gr \<and> rect_area gr \<noteq> 0"
    using that by (simp add: overlapRatio_def)
  ultimately show ?thesis
    using zero by (simp add: boxes_overlap_bbox boxes_overlap_tbto_bbox r)
qed

theorem overlap_ratio_glyph_denominator_witness:
  "(0::real) < 1 / 2 \<and>
   boxes_overlap \<lparr>page = 0, x0 = 0, y0 = 0, x1 = 10, y1 = 10\<rparr>
     \<lparr>page = 0, x0 = 5, y0 = 0, x1 = 15, y1 = 10, ch_text = ''A''\<rparr> (1 / 2) \<and>
   rectangles_overlap (5, 0, 15, 10) (0, 0, 10, 10) (1 / 2) \<and>
   overlapRatio (0, 0, 10, 10) (5, 0, 15, 10) = 1 / 2"
proof -
  have h: "(0::real) < 1 / 2" by simp
  have v: "overlapRatio (0, 0, 10, 10) (5, 0, 15, 10) = 1 / 2"
    by (simp add: overlapRatio_def)
  show ?thesis
    using h v
      overlap_ratio_glyph_denominator [OF h,
        of "\<lparr>page = 0, x0 = 0, y0 = 0, x1 = 10, y1 = 10\<rparr>"
           "\<lparr>page = 0, x0 = 5, y0 = 0, x1 = 15, y1 = 10, ch_text = ''A''\<rparr>"
           "(5, 0, 15, 10)" "(0, 0, 10, 10)"]
    by (simp add: bbox_of_def)
qed

text \<open>
  C1 as stated, with the second argument as the denominator, fails for
  \<^verbatim>\<open>rectangles_overlap\<close>: for the 10 by 10 square first and the unit square inside
  it second, the intersection is the whole second rectangle (ratio 1 over the second
  argument), and the predicate divides by the area 100 of the first and rejects at
  threshold 0.5.
\<close>

theorem overlap_ratio_second_argument_counterexample:
  "\<not> (rectangles_overlap (0, 0, 10, 10) (0, 0, 1, 1) (1 / 2) \<longleftrightarrow>
        1 / 2 \<le> overlapRatio (0, 0, 10, 10) (0, 0, 1, 1))"
  by (simp add: overlapRatio_def)

text \<open>
  C5. The comparison with the threshold is inclusive: a glyph whose overlap ratio equals
  the threshold is a match, for every threshold in (0,1]. A well-formed glyph rectangle
  of positive area that lies inside the box has ratio 1 and matches at every threshold
  in (0,1].
\<close>

theorem threshold_inclusive:
  assumes "0 < t" and "t \<le> 1"
  shows "(overlapRatio (bbox_of a) (bbox_of g) = t \<longrightarrow>
            boxes_overlap a g t \<and> boxes_overlap_tbto a g t) \<and>
         (overlapRatio ar gr = t \<longrightarrow> rectangles_overlap gr ar t) \<and>
         (well_formed (bbox_of g) \<and> 0 < rect_area (bbox_of g) \<and>
          contained_in (bbox_of g) (bbox_of a) \<longrightarrow>
            overlapRatio (bbox_of a) (bbox_of g) = 1 \<and>
            boxes_overlap a g t \<and> boxes_overlap_tbto a g t) \<and>
         (well_formed gr \<and> 0 < rect_area gr \<and> contained_in gr ar \<longrightarrow>
            overlapRatio ar gr = 1 \<and> rectangles_overlap gr ar t)"
proof -
  have r: "rectangles_overlap gr ar t \<longleftrightarrow> t \<le> overlapRatio ar gr" for gr ar
    using assms(1) by (rule rectangles_overlap_ratio)
  have one: "overlapRatio ar gr = 1 \<and> rectangles_overlap gr ar t"
    if "well_formed gr \<and> 0 < rect_area gr \<and> contained_in gr ar" for gr ar
    using that assms(2) contained_ratio_one [of gr ar] by (simp add: r)
  show ?thesis
    using one [of "bbox_of g" "bbox_of a"] one [of gr ar]
    by (auto simp: boxes_overlap_bbox boxes_overlap_tbto_bbox r)
qed

theorem threshold_inclusive_witness:
  "(0::real) < 1 / 2 \<and> (1::real) / 2 \<le> 1 \<and>
   overlapRatio (0, 0, 10, 10) (5, 0, 15, 10) = 1 / 2 \<and>
   rectangles_overlap (5, 0, 15, 10) (0, 0, 10, 10) (1 / 2) \<and>
   well_formed (1, 1, 2, 2) \<and> 0 < rect_area (1, 1, 2, 2) \<and>
   contained_in (1, 1, 2, 2) (0, 0, 10, 10) \<and>
   overlapRatio (0, 0, 10, 10) (1, 1, 2, 2) = 1 \<and>
   boxes_overlap \<lparr>page = 0, x0 = 0, y0 = 0, x1 = 10, y1 = 10\<rparr>
     \<lparr>page = 0, x0 = 1, y0 = 1, x1 = 2, y1 = 2, ch_text = ''A''\<rparr> (1 / 2)"
proof -
  have h: "(0::real) < 1 / 2" "(1::real) / 2 \<le> 1" by simp_all
  have v: "overlapRatio (0, 0, 10, 10) (5, 0, 15, 10) = 1 / 2"
    by (simp add: overlapRatio_def)
  show ?thesis
    using h v
      threshold_inclusive [OF h,
        of "\<lparr>page = 0, x0 = 0, y0 = 0, x1 = 10, y1 = 10\<rparr>"
           "\<lparr>page = 0, x0 = 1, y0 = 1, x1 = 2, y1 = 2, ch_text = ''A''\<rparr>"
           "(0, 0, 10, 10)" "(5, 0, 15, 10)"]
    by (simp add: bbox_of_def)
qed

section \<open>Properties of the loops\<close>

subsection \<open>The boxes of a page\<close>

lemma map_filter_mem: "x \<in> set xs \<Longrightarrow> f x = Some y \<Longrightarrow> y \<in> set (List.map_filter f xs)"
  by (induction xs) (auto simp: map_filter_simps split: option.splits)

lemma drawings_loop_eq: "drawings_loop n thr ds acc = acc @ dark_boxes n thr ds"
proof (induction ds arbitrary: acc)
  case Nil
  show ?case by (simp add: dark_boxes_def map_filter_simps)
next
  case (Cons d ds)
  have step: "dark_boxes n thr (d # ds) =
      (if is_dark_fill thr d then (case d_rect d of None \<Rightarrow> [] | Some r \<Rightarrow> [(n, r)]) else [])
      @ dark_boxes n thr ds"
    by (simp add: dark_boxes_def map_filter_simps split: option.splits)
  show ?case
    unfolding drawings_loop.simps Cons.IH step
    by (auto simp: is_dark_fill_def Let_def split: option.splits)
qed

lemma blocks_loop_eq: "blocks_loop n items acc = acc @ image_boxes n items"
proof (induction items arbitrary: acc)
  case Nil
  show ?case by (simp add: image_boxes_def map_filter_simps)
next
  case (Cons b items)
  have step: "image_boxes n (b # items) =
      (if is_image_block b then (case b_bbox b of None \<Rightarrow> [] | Some r \<Rightarrow> [(n, r)]) else [])
      @ image_boxes n items"
    by (simp add: image_boxes_def map_filter_simps split: option.splits)
  show ?case
    unfolding blocks_loop.simps Cons.IH step
    by (auto simp: is_image_block_def split: option.splits)
qed

lemma dark_boxes_mem:
  "d \<in> set ds \<Longrightarrow> is_dark_fill thr d \<Longrightarrow> d_rect d = Some r \<Longrightarrow> (n, r) \<in> set (dark_boxes n thr ds)"
  unfolding dark_boxes_def by (rule map_filter_mem [of d]) simp_all

lemma image_boxes_mem:
  "b \<in> set items \<Longrightarrow> is_image_block b \<Longrightarrow> b_bbox b = Some r \<Longrightarrow> (n, r) \<in> set (image_boxes n items)"
  unfolding image_boxes_def by (rule map_filter_mem [of b]) simp_all

lemma detect_pages_mono: "set acc \<subseteq> set (detect_pages n thr pgs acc)"
proof (induction pgs arbitrary: n acc)
  case Nil
  show ?case by simp
next
  case (Cons pg pgs)
  show ?case
  proof (cases "drawings pg")
    case None
    then show ?thesis by simp
  next
    case (Some ds)
    show ?thesis
    proof (cases "blocks pg")
      case None
      with Some show ?thesis by (simp add: drawings_loop_eq)
    next
      case (Some items)
      with \<open>drawings pg = Some ds\<close>
        Cons.IH [of "blocks_loop n items (drawings_loop n thr ds acc)" "Suc n"]
      show ?thesis by (simp add: drawings_loop_eq blocks_loop_eq)
    qed
  qed
qed

lemma detect_pages_page:
  assumes "k < length pgs" and "\<forall>j \<le> k. readable (pgs ! j)"
    and "drawings (pgs ! k) = Some ds" and "blocks (pgs ! k) = Some items"
  shows "set (dark_boxes (n + k) thr ds) \<union> set (image_boxes (n + k) items)
         \<subseteq> set (detect_pages n thr pgs acc)"
  using assms
proof (induction pgs arbitrary: n k acc)
  case Nil
  then show ?case by simp
next
  case (Cons pg pgs)
  from Cons.prems(2) have "readable ((pg # pgs) ! 0)"
    by blast
  then obtain ds0 items0 where pg: "drawings pg = Some ds0" "blocks pg = Some items0"
    by (auto simp: readable_def)
  let ?acc = "blocks_loop n items0 (drawings_loop n thr ds0 acc)"
  show ?case
  proof (cases k)
    case 0
    with Cons.prems pg have "ds0 = ds" "items0 = items"
      by simp_all
    with 0 pg detect_pages_mono [of ?acc "Suc n" thr pgs] show ?thesis
      by (auto simp: drawings_loop_eq blocks_loop_eq)
  next
    case (Suc k')
    with Cons.prems have "k' < length pgs" "\<forall>j \<le> k'. readable (pgs ! j)"
      "drawings (pgs ! k') = Some ds" "blocks (pgs ! k') = Some items"
      by auto
    from Cons.IH [OF this, of "Suc n" ?acc] Suc pg show ?thesis
      by simp
  qed
qed

subsection \<open>The characters under the boxes\<close>

lemma boxes_loop_eq:
  "boxes_loop n c t pbs acc =
     acc @ (if matches_some_box t pbs c then [redacted_entry n c] else [])"
  by (induction pbs) (simp_all add: matches_some_box_def redacted_entry_def Let_def)

lemma chars_loop_eq:
  "chars_loop n t pbs cs acc =
     acc @ map (redacted_entry n) (filter (matches_some_box t pbs) cs)"
  by (induction cs arbitrary: acc) (simp_all add: boxes_loop_eq)

lemma check_pages_length:
  "length (check_pages n t boxes pgs acc) \<le>
     length acc + sum_list (map (\<lambda>pg. case pg of None \<Rightarrow> 0 | Some cs \<Rightarrow> length cs) pgs)"
proof (induction pgs arbitrary: n acc)
  case Nil
  show ?case by simp
next
  case (Cons pg pgs)
  show ?case
  proof (cases pg)
    case None
    then show ?thesis by simp
  next
    case (Some cs)
    let ?acc = "chars_loop n t (filter (\<lambda>box. fst box = n) boxes) cs acc"
    have "length ?acc \<le> length acc + length cs"
      by (simp add: chars_loop_eq)
    with Cons.IH [of "Suc n" ?acc] show ?thesis
      using Some by simp
  qed
qed

lemma check_text_count_le:
  "redacted_text_count (check_text_under_boxes pdf boxes t) \<le> glyph_count pdf"
  using check_pages_length [of 0 t boxes _ "[]"]
  by (auto simp: check_text_under_boxes_def glyph_count_def Let_def split: option.splits)

lemma analyze_count:
  "redacted_char_count (analyze_pdf_for_redactions pdf) =
     redacted_text_count (check_text_under_boxes pdf (detect_black_rectangles pdf (15 / 100)) (1 / 2))"
  by (simp add: analyze_pdf_for_redactions_def Let_def check_text_under_boxes_def)

lemma check_pages_sound:
  "e \<in> set (check_pages n t boxes pgs acc) \<Longrightarrow>
     e \<in> set acc \<or>
     (\<exists>k cs. k < length pgs \<and> pgs ! k = Some cs \<and> cs \<noteq> [] \<and> (\<exists>box \<in> set boxes. fst box = n + k))"
proof (induction pgs arbitrary: n acc)
  case Nil
  then show ?case by simp
next
  case (Cons pg pgs)
  show ?case
  proof (cases pg)
    case None
    with Cons.prems show ?thesis by simp
  next
    case (Some cs)
    let ?pb = "filter (\<lambda>box. fst box = n) boxes"
    let ?acc = "chars_loop n t ?pb cs acc"
    from Cons.prems Some have "e \<in> set (check_pages (Suc n) t boxes pgs ?acc)"
      by simp
    from Cons.IH [OF this] consider
      (old) "e \<in> set acc"
      | (here) "e \<in> set ?acc" "e \<notin> set acc"
      | (later) k cs' where "k < length pgs" "pgs ! k = Some cs'" "cs' \<noteq> []"
          "\<exists>box \<in> set boxes. fst box = Suc n + k"
      by blast
    then show ?thesis
    proof cases
      case old
      then show ?thesis by simp
    next
      case here
      then obtain c where c: "c \<in> set cs" "matches_some_box t ?pb c"
        by (auto simp: chars_loop_eq)
      then obtain box where "box \<in> set boxes" "fst box = n"
        by (auto simp: matches_some_box_def list_ex_iff)
      with c(1) Some have "0 < length (pg # pgs) \<and> (pg # pgs) ! 0 = Some cs \<and> cs \<noteq> [] \<and>
          (\<exists>box \<in> set boxes. fst box = n + 0)"
        by auto
      then show ?thesis by blast
    next
      case later
      then have "Suc k < length (pg # pgs) \<and> (pg # pgs) ! Suc k = Some cs' \<and> cs' \<noteq> [] \<and>
          (\<exists>box \<in> set boxes. fst box = n + Suc k)"
        by simp
      then show ?thesis by blast
    qed
  qed
qed

lemma no_glyphs_no_text:
  assumes "\<forall>box \<in> set boxes. glyphs_on_page pdf (fst box) = []"
  shows "redacted_chars (check_text_under_boxes pdf boxes t) = []"
proof (cases "boxes = [] \<or> plumber_doc pdf = None")
  case True
  then show ?thesis
    by (auto simp: check_text_under_boxes_def)
next
  case False
  then obtain pgs where pgs: "plumber_doc pdf = Some pgs" and ne: "boxes \<noteq> []"
    by auto
  have "check_pages 0 t boxes pgs [] = []"
  proof (rule ccontr)
    assume "check_pages 0 t boxes pgs [] \<noteq> []"
    then have "hd (check_pages 0 t boxes pgs []) \<in> set (check_pages 0 t boxes pgs [])"
      by simp
    from check_pages_sound [OF this] obtain k cs box where
      "k < length pgs" "pgs ! k = Some cs" "cs \<noteq> []" "box \<in> set boxes" "fst box = k"
      by auto
    with assms pgs show False
      by (auto simp: glyphs_on_page_def)
  qed
  with pgs ne show ?thesis
    by (simp add: check_text_under_boxes_def)
qed

lemma check_pages_eq:
  "check_pages n t boxes pgs acc =
     acc @ concat (map (page_matches t boxes) (enumerate n (takeWhile (\<lambda>pg. pg \<noteq> None) pgs)))"
proof (induction pgs arbitrary: n acc)
  case Nil
  show ?case by simp
next
  case (Cons pg pgs)
  show ?case
    by (cases pg) (simp_all add: Cons.IH chars_loop_eq page_matches_def)
qed

lemma check_text_prefix:
  "redacted_chars (check_text_under_boxes pdf boxes t) =
     isolated_redacted_chars (readable_prefix pdf) boxes t"
  by (cases "plumber_doc pdf")
    (simp_all add: check_text_under_boxes_def isolated_redacted_chars_def readable_prefix_def
      check_pages_eq Let_def)

lemma readable_prefix_id:
  assumes "plumber_doc pdf = Some pgs" and "\<forall>pg \<in> set pgs. pg \<noteq> None"
  shows "readable_prefix pdf = pdf"
proof -
  from assms(2) have "takeWhile (\<lambda>pg. pg \<noteq> None) pgs = pgs"
    by (simp add: takeWhile_eq_all_conv)
  with assms(1) show ?thesis
    by (simp add: readable_prefix_def)
qed

subsection \<open>The character list of a document\<close>

lemma gtp_chars_eq: "gtp_chars n cs acc = acc @ map (char_dict n) cs"
  by (induction cs arbitrary: acc) simp_all

lemma gtp_pages_eq:
  "gtp_pages n pgs acc =
     acc @ concat (map page_glyphs (enumerate n (takeWhile (\<lambda>pg. pg \<noteq> None) pgs)))"
proof (induction pgs arbitrary: n acc)
  case Nil
  show ?case by simp
next
  case (Cons pg pgs)
  show ?case
    by (cases pg) (simp_all add: Cons.IH gtp_chars_eq page_glyphs_def)
qed

lemma get_text_positions_prefix:
  "get_text_positions pdf = isolated_get_text_positions (readable_prefix pdf)"
  by (cases "plumber_doc pdf")
    (simp_all add: get_text_positions_def isolated_get_text_positions_def readable_prefix_def
      gtp_pages_eq)

lemma page_char_dict [simp]: "page (char_dict n c) = n"
  by (simp add: char_dict_def)

lemma filter_page_glyphs:
  "filter (\<lambda>c. page c = n) (page_glyphs (m, pg)) = (if m = n then page_glyphs (m, pg) else [])"
  by (cases pg) (simp_all add: page_glyphs_def)

lemma filter_page_stream:
  "filter (\<lambda>c. page c = n) (concat (map page_glyphs (enumerate m pgs))) =
     (if m \<le> n \<and> n < m + length pgs then page_glyphs (n, pgs ! (n - m)) else [])"
proof (induction pgs arbitrary: m)
  case Nil
  show ?case by auto
next
  case (Cons pg pgs)
  show ?case
  proof (cases "m = n")
    case True
    then show ?thesis
      by (auto simp: filter_page_glyphs Cons.IH)
  next
    case False
    then show ?thesis
      by (auto simp: filter_page_glyphs Cons.IH Suc_diff_le nth_Cons')
  qed
qed

lemma page_stream:
  assumes "plumber_doc pdf = Some pgs" and "\<forall>pg \<in> set pgs. pg \<noteq> None"
    and "n < length pgs"
  shows "filter (\<lambda>c. page c = n) (get_text_positions pdf) = page_glyphs (n, pgs ! n)"
  using assms(1,3) filter_page_stream [of n 0 pgs]
  by (simp add: get_text_positions_prefix readable_prefix_id [OF assms(1,2)]
      isolated_get_text_positions_def)

subsection \<open>The glyphs under one box\<close>

lemma matching_glyphs_code:
  "filter (\<lambda>c. page c = page box \<and> boxes_overlap box c (3 / 10)) cs =
     matching_glyphs box cs (3 / 10)"
  by (simp add: matching_glyphs_def boxes_overlap_bbox rectangles_overlap_ratio)

lemma box_overlaps_loop_eq:
  "box_overlaps_loop box cs acc = acc @ filter (\<lambda>c. boxes_overlap_tbto box c (3 / 10)) cs"
  by (induction cs arbitrary: acc) simp_all

lemma matching_glyphs_code_tbto:
  "filter (\<lambda>c. page c = page box \<and> boxes_overlap_tbto box c (3 / 10)) cs =
     matching_glyphs box cs (3 / 10)"
  by (simp add: matching_glyphs_def boxes_overlap_tbto_bbox rectangles_overlap_ratio)

lemma recover_loop_step:
  "recover_loop (box # boxes) cs acc =
     recover_loop boxes cs (acc @ (case box_region box cs of None \<Rightarrow> [] | Some r \<Rightarrow> [r]))"
  by (simp add: matching_glyphs_code box_region_def Let_def)

lemma recover_loop_eq:
  "recover_loop boxes cs acc = acc @ List.map_filter (\<lambda>box. box_region box cs) boxes"
proof (induction boxes arbitrary: acc)
  case Nil
  show ?case by (simp add: map_filter_simps)
next
  case (Cons box boxes)
  show ?case
    unfolding recover_loop_step Cons.IH
    by (simp add: map_filter_simps split: option.splits)
qed

lemma overlaps_loop_step:
  "overlaps_loop (box # boxes) cs acc =
     overlaps_loop boxes cs (acc @ (case box_overlap_entry box cs of None \<Rightarrow> [] | Some e \<Rightarrow> [e]))"
  by (simp add: box_overlaps_loop_eq matching_glyphs_code_tbto box_overlap_entry_def Let_def)

lemma overlaps_loop_eq:
  "overlaps_loop boxes cs acc = acc @ List.map_filter (\<lambda>box. box_overlap_entry box cs) boxes"
proof (induction boxes arbitrary: acc)
  case Nil
  show ?case by (simp add: map_filter_simps)
next
  case (Cons box boxes)
  show ?case
    unfolding overlaps_loop_step Cons.IH
    by (simp add: map_filter_simps split: option.splits)
qed

lemma matching_glyphs_split:
  "matching_glyphs box cs t =
     filter (\<lambda>c. t \<le> overlapRatio (bbox_of box) (bbox_of c)) (filter (\<lambda>c. page c = page box) cs)"
  by (simp add: matching_glyphs_def conj_commute)

section \<open>Evaluation of the example documents\<close>

lemmas ex_defs = glyph_def black_fill_def get_or_def char_bbox_of_def char_dict_def

lemma detect_scenario2:
  "detect_black_rectangles scenario2_pdf (15 / 100) = [(0, 0, 0, 100, 20)]"
  by (simp add: detect_black_rectangles_def scenario2_pdf_def black_fill_def)

lemma detect_scenario1:
  "detect_black_rectangles scenario1_pdf (15 / 100) = [(0, 0, 0, 100, 20)]"
  by (simp add: detect_black_rectangles_def scenario1_pdf_def black_fill_def)

lemma check_scenario1:
  "redacted_text_count (check_text_under_boxes scenario1_pdf [(0, 0, 0, 100, 20)] (1 / 2)) = 6"
  by (simp add: check_text_under_boxes_def scenario1_pdf_def ex_defs Let_def)

lemma detect_overlap:
  "detect_black_rectangles overlap_pdf (15 / 100) = [(0, 0, 0, 100, 20), (0, 50, 0, 150, 20)]"
  by (simp add: detect_black_rectangles_def overlap_pdf_def black_fill_def)

lemma replicate_two: "replicate 2 x = [x, x]"
  by (simp add: numeral_2_eq_2)

lemmas word_defs = scenario3_hello_def scenario3_world_def w_top_def w_x0_def w_x1_def
  w_text_def get_or_def

lemma scenario3_group:
  "group_words_into_lines [scenario3_hello, scenario3_world] 2 =
     [[scenario3_hello, scenario3_world]]"
  "group_words_into_lines [scenario3_world, scenario3_hello] 2 =
     [[scenario3_hello, scenario3_world]]"
  by (simp_all add: group_words_into_lines_def word_defs)

lemma scenario3_build:
  "build_line_text [scenario3_hello, scenario3_world] 5 1 =
     Inr (''Hello  World'', 0, 70, 201 / 2, 10)"
  by (simp add: build_line_text_def word_defs List.map_filter_def py_round_def Let_def
      replicate_two)

section \<open>The scan verdict\<close>

text \<open>
  C2. For every file, \<open>should_process\<close> of the analysis result holds if and only if its
  count of redaction boxes and its count of recovered characters are both positive. A
  file that has a redaction box, and no glyph on the page of any of its boxes, has
  \<open>has_recoverable_text\<close> and \<open>should_process\<close> false.
\<close>

theorem should_process_iff:
  "(should_process (analyze_pdf_for_redactions pdf) \<longleftrightarrow>
      redaction_box_count (analyze_pdf_for_redactions pdf) > 0 \<and>
      redacted_char_count (analyze_pdf_for_redactions pdf) > 0) \<and>
   (detect_black_rectangles pdf (15 / 100) \<noteq> [] \<and>
    (\<forall>box \<in> set (detect_black_rectangles pdf (15 / 100)). glyphs_on_page pdf (fst box) = []) \<longrightarrow>
      \<not> has_recoverable_text (analyze_pdf_for_redactions pdf) \<and>
      \<not> should_process (analyze_pdf_for_redactions pdf))"
proof -
  let ?boxes = "detect_black_rectangles pdf (15 / 100)"
  let ?tc = "check_text_under_boxes pdf ?boxes (1 / 2)"
  have cnt: "redacted_text_count ?tc = length (redacted_chars ?tc)"
    and has: "has_redacted_text ?tc \<longleftrightarrow> length (redacted_chars ?tc) > 0"
    by (simp_all add: check_text_under_boxes_def Let_def)
  have first: "should_process (analyze_pdf_for_redactions pdf) \<longleftrightarrow>
      redaction_box_count (analyze_pdf_for_redactions pdf) > 0 \<and>
      redacted_char_count (analyze_pdf_for_redactions pdf) > 0"
    using cnt has by (simp add: analyze_pdf_for_redactions_def Let_def)
  have second: "\<not> has_recoverable_text (analyze_pdf_for_redactions pdf) \<and>
      \<not> should_process (analyze_pdf_for_redactions pdf)"
    if "\<forall>box \<in> set ?boxes. glyphs_on_page pdf (fst box) = []"
    using no_glyphs_no_text [OF that, of "1 / 2"] has
    by (simp add: analyze_pdf_for_redactions_def Let_def)
  from first second show ?thesis by blast
qed

theorem should_process_iff_witness:
  "detect_black_rectangles scenario2_pdf (15 / 100) \<noteq> [] \<and>
   glyphs_on_page scenario2_pdf 0 = [] \<and>
   \<not> has_recoverable_text (analyze_pdf_for_redactions scenario2_pdf) \<and>
   \<not> should_process (analyze_pdf_for_redactions scenario2_pdf) \<and>
   redaction_box_count (analyze_pdf_for_redactions scenario1_pdf) = 1 \<and>
   redacted_char_count (analyze_pdf_for_redactions scenario1_pdf) = 6 \<and>
   should_process (analyze_pdf_for_redactions scenario1_pdf)"
proof -
  have g: "glyphs_on_page scenario2_pdf 0 = []"
    by (simp add: glyphs_on_page_def scenario2_pdf_def)
  have h: "detect_black_rectangles scenario2_pdf (15 / 100) \<noteq> [] \<and>
      (\<forall>box \<in> set (detect_black_rectangles scenario2_pdf (15 / 100)).
         glyphs_on_page scenario2_pdf (fst box) = [])"
    unfolding detect_scenario2 by (simp add: g)
  have b: "redaction_box_count (analyze_pdf_for_redactions scenario1_pdf) = 1"
    unfolding analyze_pdf_for_redactions_def detect_scenario1 by (simp add: Let_def)
  have c: "redacted_char_count (analyze_pdf_for_redactions scenario1_pdf) = 6"
    unfolding analyze_count detect_scenario1 by (rule check_scenario1)
  from should_process_iff [of scenario2_pdf] h
  have s2: "\<not> has_recoverable_text (analyze_pdf_for_redactions scenario2_pdf) \<and>
      \<not> should_process (analyze_pdf_for_redactions scenario2_pdf)"
    by blast
  from should_process_iff [of scenario1_pdf] b c
  have s1: "should_process (analyze_pdf_for_redactions scenario1_pdf)"
    by simp
  from h g s2 b c s1 show ?thesis
    by blast
qed

text \<open>
  C10. The matcher of the scan verdict attributes a glyph to at most one box: the loop
  over the boxes of the page adds at most one entry for the glyph, so the count of
  redacted characters, of \<^verbatim>\<open>check_text_under_boxes\<close> and of the analysis result,
  is at most the number of glyphs of the document, whatever boxes are given.
\<close>

theorem glyph_attributed_at_most_once:
  "length (boxes_loop n c t page_boxes redacted) \<le> Suc (length redacted) \<and>
   redacted_text_count (check_text_under_boxes pdf boxes t) \<le> glyph_count pdf \<and>
   redacted_char_count (analyze_pdf_for_redactions pdf) \<le> glyph_count pdf"
  by (simp add: boxes_loop_eq check_text_count_le analyze_count)

text \<open>Two boxes that overlap each other over one glyph: the glyph is counted once.\<close>

theorem glyph_attributed_at_most_once_witness:
  "length (detect_black_rectangles overlap_pdf (15 / 100)) = 2 \<and>
   rectangles_overlap (char_bbox_of (glyph ''X'' 60 5 70 15)) (0, 0, 100, 20) (1 / 2) \<and>
   rectangles_overlap (char_bbox_of (glyph ''X'' 60 5 70 15)) (50, 0, 150, 20) (1 / 2) \<and>
   glyph_count overlap_pdf = 1 \<and>
   redacted_char_count (analyze_pdf_for_redactions overlap_pdf) = 1"
proof -
  have le: "redacted_char_count (analyze_pdf_for_redactions overlap_pdf) \<le> glyph_count overlap_pdf"
    using glyph_attributed_at_most_once [of 0 "glyph ''X'' 60 5 70 15" "1 / 2" "[]" "[]" overlap_pdf "[]"]
    by simp
  have g: "glyph_count overlap_pdf = 1"
    by (simp add: glyph_count_def overlap_pdf_def)
  have c: "redacted_char_count (analyze_pdf_for_redactions overlap_pdf) = 1"
    unfolding analyze_count detect_overlap
    by (simp add: check_text_under_boxes_def overlap_pdf_def ex_defs Let_def)
  show ?thesis
    using le g c unfolding detect_overlap by (simp add: ex_defs)
qed

section \<open>The redaction boxes of a page\<close>

text \<open>
  C9. On a page that is reached and read without a failure, every image block (a block
  of type 1) is emitted as a candidate box at its bounding rect, with no test of a
  colour and whatever the darkness threshold is, in addition to the filled drawings
  that pass the darkness test.
\<close>

theorem image_blocks_emitted:
  assumes "fitz_doc pdf = Some doc" and "k < length doc" and "\<forall>j \<le> k. readable (doc ! j)"
    and "drawings (doc ! k) = Some ds" and "blocks (doc ! k) = Some items"
  shows "(\<forall>b \<in> set items. \<forall>r. is_image_block b \<and> b_bbox b = Some r \<longrightarrow>
            (k, r) \<in> set (detect_black_rectangles pdf thr)) \<and>
         (\<forall>d \<in> set ds. \<forall>r. is_dark_fill thr d \<and> d_rect d = Some r \<longrightarrow>
            (k, r) \<in> set (detect_black_rectangles pdf thr))"
proof -
  have sub: "set (dark_boxes k thr ds) \<union> set (image_boxes k items)
      \<subseteq> set (detect_black_rectangles pdf thr)"
    using detect_pages_page [OF assms(2-5), of 0 thr "[]"] assms(1)
    by (simp add: detect_black_rectangles_def)
  show ?thesis
    using sub dark_boxes_mem [of _ ds thr _ k] image_boxes_mem [of _ items _ k]
    by blast
qed

theorem image_blocks_emitted_witness:
  "(0, 10, 60, 90, 80) \<in> set (detect_black_rectangles image_pdf (15 / 100)) \<and>
   (0, 0, 0, 100, 20) \<in> set (detect_black_rectangles image_pdf (15 / 100)) \<and>
   (0, 0, 30, 100, 50) \<notin> set (detect_black_rectangles image_pdf (15 / 100)) \<and>
   (0, 0, 0, 200, 50) \<notin> set (detect_black_rectangles image_pdf (15 / 100))"
proof -
  let ?pg = "\<lparr>drawings =
                 Some [\<lparr>d_type = Some ''f'', d_rect = Some (0, 30, 100, 50),
                        d_fill = Some [1, 1, 1]\<rparr>,
                       black_fill (0, 0, 100, 20)],
               blocks =
                 Some [\<lparr>b_type = Some 0, b_bbox = Some (0, 0, 200, 50)\<rparr>,
                       \<lparr>b_type = Some 1, b_bbox = Some (10, 60, 90, 80)\<rparr>]\<rparr>"
  have h1: "fitz_doc image_pdf = Some [?pg]"
    by (simp add: image_pdf_def)
  have h2: "0 < length [?pg]"
    by simp
  have h3: "\<forall>j \<le> 0. readable ([?pg] ! j)"
    by (simp add: readable_def)
  have h4: "drawings ([?pg] ! 0) =
      Some [\<lparr>d_type = Some ''f'', d_rect = Some (0, 30, 100, 50), d_fill = Some [1, 1, 1]\<rparr>,
            black_fill (0, 0, 100, 20)]"
    by simp
  have h5: "blocks ([?pg] ! 0) =
      Some [\<lparr>b_type = Some 0, b_bbox = Some (0, 0, 200, 50)\<rparr>,
            \<lparr>b_type = Some 1, b_bbox = Some (10, 60, 90, 80)\<rparr>]"
    by simp
  have v: "detect_black_rectangles image_pdf (15 / 100) = [(0, 0, 0, 100, 20), (0, 10, 60, 90, 80)]"
    by (simp add: detect_black_rectangles_def image_pdf_def black_fill_def)
  show ?thesis
    using image_blocks_emitted [OF h1 h2 h3 h4 h5, of "15 / 100"]
    unfolding v by (simp add: is_image_block_def is_dark_fill_def black_fill_def)
qed

section \<open>A page that cannot be read\<close>

text \<open>
  C6 (as amended). Glyph extraction and matching never raise to the caller: they return
  a list for every document, the empty one when the document cannot be opened. A
  failure on one page is not isolated; it ends the loop over the pages. The pages before
  the failing page contribute their glyphs and matches; the failing page and every
  page after it contribute nothing. When every page can be read the result is that of
  page-by-page extraction.
\<close>

theorem extraction_stops_at_unreadable_page:
  "get_text_positions pdf = isolated_get_text_positions (readable_prefix pdf) \<and>
   redacted_chars (check_text_under_boxes pdf boxes t) =
     isolated_redacted_chars (readable_prefix pdf) boxes t \<and>
   (plumber_doc pdf = None \<longrightarrow>
      get_text_positions pdf = [] \<and> redacted_chars (check_text_under_boxes pdf boxes t) = []) \<and>
   (\<forall>pgs. plumber_doc pdf = Some pgs \<and> (\<forall>pg \<in> set pgs. pg \<noteq> None) \<longrightarrow>
      get_text_positions pdf = isolated_get_text_positions pdf \<and>
      redacted_chars (check_text_under_boxes pdf boxes t) = isolated_redacted_chars pdf boxes t)"
proof -
  have "get_text_positions pdf = [] \<and> redacted_chars (check_text_under_boxes pdf boxes t) = []"
    if "plumber_doc pdf = None"
    using that by (simp add: get_text_positions_def check_text_under_boxes_def)
  moreover have "get_text_positions pdf = isolated_get_text_positions pdf \<and>
      redacted_chars (check_text_under_boxes pdf boxes t) = isolated_redacted_chars pdf boxes t"
    if "plumber_doc pdf = Some pgs \<and> (\<forall>pg \<in> set pgs. pg \<noteq> None)" for pgs
    using that readable_prefix_id [of pdf pgs]
    by (simp add: get_text_positions_prefix check_text_prefix)
  ultimately show ?thesis
    using get_text_positions_prefix [of pdf] check_text_prefix [of pdf boxes t]
    by blast
qed

theorem extraction_stops_at_unreadable_page_witness:
  "plumber_doc (readable_prefix broken_page_pdf) = Some [Some [glyph ''A'' 0 5 10 15]] \<and>
   get_text_positions broken_page_pdf = [char_dict 0 (glyph ''A'' 0 5 10 15)] \<and>
   plumber_doc order_pdf = Some [Some [glyph ''B'' 10 5 20 15, glyph ''A'' 0 5 10 15]] \<and>
   get_text_positions order_pdf = isolated_get_text_positions order_pdf"
proof -
  have p: "plumber_doc (readable_prefix broken_page_pdf) = Some [Some [glyph ''A'' 0 5 10 15]]"
    by (simp add: readable_prefix_def broken_page_pdf_def)
  have q: "plumber_doc order_pdf = Some [Some [glyph ''B'' 10 5 20 15, glyph ''A'' 0 5 10 15]]"
    by (simp add: order_pdf_def)
  have i: "isolated_get_text_positions (readable_prefix broken_page_pdf) =
      [char_dict 0 (glyph ''A'' 0 5 10 15)]"
    by (simp add: isolated_get_text_positions_def p page_glyphs_def)
  from extraction_stops_at_unreadable_page [of broken_page_pdf "[]" 0] i
  have a: "get_text_positions broken_page_pdf = [char_dict 0 (glyph ''A'' 0 5 10 15)]"
    by simp
  have ne: "\<forall>pg \<in> set [Some [glyph ''B'' 10 5 20 15, glyph ''A'' 0 5 10 15]]. pg \<noteq> None"
    by simp
  from extraction_stops_at_unreadable_page [of order_pdf "[]" 0] q ne
  have b: "get_text_positions order_pdf = isolated_get_text_positions order_pdf"
    by blast
  from p a q b show ?thesis
    by blast
qed

text \<open>
  C6 as stated fails on a document of three pages whose second page cannot be read: the
  glyph B of the third page, which page-by-page isolation would deliver, is neither
  extracted nor matched.
\<close>

theorem page_isolation_counterexample:
  "isolated_get_text_positions broken_page_pdf =
     [char_dict 0 (glyph ''A'' 0 5 10 15), char_dict 2 (glyph ''B'' 0 5 10 15)] \<and>
   get_text_positions broken_page_pdf = [char_dict 0 (glyph ''A'' 0 5 10 15)] \<and>
   isolated_redacted_chars broken_page_pdf [(0, 0, 0, 100, 20), (2, 0, 0, 100, 20)] (1 / 2) =
     [redacted_entry 0 (glyph ''A'' 0 5 10 15), redacted_entry 2 (glyph ''B'' 0 5 10 15)] \<and>
   redacted_chars
     (check_text_under_boxes broken_page_pdf [(0, 0, 0, 100, 20), (2, 0, 0, 100, 20)] (1 / 2)) =
     [redacted_entry 0 (glyph ''A'' 0 5 10 15)]"
  by (simp add: isolated_get_text_positions_def get_text_positions_def broken_page_pdf_def
      page_glyphs_def isolated_redacted_chars_def page_matches_def matches_some_box_def
      check_text_under_boxes_def redacted_entry_def glyph_def get_or_def char_bbox_of_def
      Let_def numeral_2_eq_2)

section \<open>The recovered text of a box\<close>

text \<open>
  C8. The entries of \<open>recoverable_text\<close> (and of \<open>overlaps\<close>) are, box by box, built
  from the glyphs that match the box, taken in the order of the character list: the
  recovered text is the concatenation of their texts, and the matching glyphs form a
  subsequence of the character list. For a document whose pages can all be read, they
  are the matching glyphs of the character stream of the page of the box, in the order
  of that stream; they are not sorted by position.
\<close>

theorem recovered_text_in_stream_order:
  "recover_loop boxes cs [] = List.map_filter (\<lambda>box. box_region box cs) boxes \<and>
   overlaps_loop boxes cs [] = List.map_filter (\<lambda>box. box_overlap_entry box cs) boxes \<and>
   hidden_text (box, matching_glyphs box cs t) = concat (map ch_text (matching_glyphs box cs t)) \<and>
   subseq (matching_glyphs box cs t) cs \<and>
   (plumber_doc pdf = Some pgs \<and> (\<forall>pg \<in> set pgs. pg \<noteq> None) \<and> page box < length pgs \<longrightarrow>
      matching_glyphs box (get_text_positions pdf) t =
        filter (\<lambda>c. t \<le> overlapRatio (bbox_of box) (bbox_of c))
          (page_glyphs (page box, pgs ! page box)))"
  by (simp add: recover_loop_eq overlaps_loop_eq hidden_text_def matching_glyphs_split page_stream)

text \<open>
  A page whose stream holds B before A, with A to the left of B: the recovered text is
  BA.
\<close>

theorem recovered_text_in_stream_order_witness:
  "plumber_doc order_pdf = Some [Some [glyph ''B'' 10 5 20 15, glyph ''A'' 0 5 10 15]] \<and>
   get_black_boxes order_pdf = [\<lparr>page = 0, x0 = 0, y0 = 0, x1 = 100, y1 = 20\<rparr>] \<and>
   matching_glyphs \<lparr>page = 0, x0 = 0, y0 = 0, x1 = 100, y1 = 20\<rparr>
       (get_text_positions order_pdf) (3 / 10) =
     [char_dict 0 (glyph ''B'' 10 5 20 15), char_dict 0 (glyph ''A'' 0 5 10 15)] \<and>
   test_pdf order_pdf =
     Some \<lparr>rp_path = ''order.pdf'', rp_black_boxes = 1, rp_recoverable_areas = 1,
           rp_total_chars = 2,
           rp_sample_text = [\<lparr>r_page = 0, r_text = ''BA'', char_count = 2\<rparr>]\<rparr>"
proof -
  let ?box = "\<lparr>page = 0, x0 = 0, y0 = 0, x1 = 100, y1 = 20\<rparr>"
  let ?pgs = "[Some [glyph ''B'' 10 5 20 15, glyph ''A'' 0 5 10 15]]"
  have p: "plumber_doc order_pdf = Some ?pgs"
    by (simp add: order_pdf_def)
  have h: "plumber_doc order_pdf = Some ?pgs \<and> (\<forall>pg \<in> set ?pgs. pg \<noteq> None) \<and>
      page ?box < length ?pgs"
    by (simp add: p)
  have pth: "path order_pdf = ''order.pdf''"
    by (simp add: order_pdf_def)
  have bb: "get_black_boxes order_pdf = [?box]"
    by (simp add: get_black_boxes_def order_pdf_def black_fill_def)
  have tc: "get_text_positions order_pdf =
      [char_dict 0 (glyph ''B'' 10 5 20 15), char_dict 0 (glyph ''A'' 0 5 10 15)]"
    by (simp add: get_text_positions_def order_pdf_def)
  note t = recovered_text_in_stream_order
    [of "[?box]" "get_text_positions order_pdf" ?box "3 / 10" order_pdf ?pgs]
  from t h have m: "matching_glyphs ?box (get_text_positions order_pdf) (3 / 10) =
      [char_dict 0 (glyph ''B'' 10 5 20 15), char_dict 0 (glyph ''A'' 0 5 10 15)]"
    by (simp add: page_glyphs_def overlapRatio_def bbox_of_def char_dict_def glyph_def get_or_def)
  from t have r: "recover_loop [?box] (get_text_positions order_pdf) [] =
      List.map_filter (\<lambda>box. box_region box (get_text_positions order_pdf)) [?box]"
    by blast
  have "test_pdf order_pdf =
     Some \<lparr>rp_path = ''order.pdf'', rp_black_boxes = 1, rp_recoverable_areas = 1,
           rp_total_chars = 2,
           rp_sample_text = [\<lparr>r_page = 0, r_text = ''BA'', char_count = 2\<rparr>]\<rparr>"
    unfolding test_pdf_def bb Let_def r
    by (simp add: map_filter_simps box_region_def m Let_def)
      (simp add: tc pth char_dict_def glyph_def get_or_def)
  with p bb m show ?thesis
    by blast
qed

section \<open>Scenario 3\<close>

text \<open>
  C7 (as amended). For the two words Hello (x0 0, x1 30, top 100) and World (x0 40, x1
  70, top 100.5), with line tolerance 2, space unit 5 and the default minimum of one
  space, line reconstruction produces exactly one line, in either order of the input. Its
  text is Hello, two spaces, World. Its top is 100.5, the upper median of the two tops;
  100.25 is the running average of the clustering, which is not the top of the line.
\<close>

theorem scenario3_line:
  "group_loop 2 [scenario3_hello, scenario3_world] ([], [], None) =
     ([], [scenario3_hello, scenario3_world], Some (401 / 4)) \<and>
   process_single_page [scenario3_hello, scenario3_world] 2 5 1 =
     Inr [(''Hello  World'', 0, 201 / 2, 10)] \<and>
   process_single_page [scenario3_world, scenario3_hello] 2 5 1 =
     Inr [(''Hello  World'', 0, 201 / 2, 10)]"
proof -
  have "group_loop 2 [scenario3_hello, scenario3_world] ([], [], None) =
      ([], [scenario3_hello, scenario3_world], Some (401 / 4))"
    by (simp add: word_defs)
  moreover have "lines_loop 5 1 [[scenario3_hello, scenario3_world]] [] =
      Inr [(''Hello  World'', 0, 201 / 2, 10)]"
    by (simp add: scenario3_build strip_nonempty_def py_isspace_def)
  ultimately show ?thesis
    by (simp add: process_single_page_def scenario3_group)
qed

text \<open>C7 as stated fails: the top of the line is not within 0.25 of 100.25.\<close>

theorem scenario3_top_counterexample:
  "\<not> (\<exists>txt lx0 tp fs.
        process_single_page [scenario3_hello, scenario3_world] 2 5 1 = Inr [(txt, lx0, tp, fs)] \<and>
        txt = ''Hello  World'' \<and> \<bar>tp - 401 / 4\<bar> < 1 / 4)"
proof -
  have "process_single_page [scenario3_hello, scenario3_world] 2 5 1 =
      Inr [(''Hello  World'', 0, 201 / 2, 10)]"
    by (simp add: process_single_page_def scenario3_group scenario3_build strip_nonempty_def
        py_isspace_def)
  then show ?thesis
    by simp
qed

section \<open>Line clustering\<close>

lemma mean_snoc:
  assumes "xs \<noteq> []"
  shows "(mean xs * real (length (xs @ [t]) - 1) + t) / real (length (xs @ [t])) = mean (xs @ [t])"
proof -
  from assms have "real (length xs) \<noteq> 0"
    by simp
  then have "mean xs * real (length xs) = sum_list xs"
    by (simp add: mean_def)
  then show ?thesis
    by (simp add: mean_def)
qed

lemma group_loop_step:
  assumes "current \<noteq> []"
  shows "group_loop tol (w # ws) (lines, current, Some (mean (map w_top current))) =
     (if \<bar>w_top w - mean (map w_top current)\<bar> \<le> tol
      then group_loop tol ws (lines, current @ [w], Some (mean (map w_top (current @ [w]))))
      else group_loop tol ws (lines @ [current], [w], Some (w_top w)))"
proof -
  from assms have "map w_top current \<noteq> []"
    by simp
  from mean_snoc [OF this, of "w_top w"] show ?thesis
    by (simp add: Let_def)
qed

lemma mean_single: "mean [t] = t"
  by (simp add: mean_def)

lemma group_loop_clusters:
  assumes "current \<noteq> []"
  shows "\<exists>lines' current'.
     group_loop tol ws (lines, current, Some (mean (map w_top current))) =
       (lines', current', Some (mean (map w_top current'))) \<and>
     current' \<noteq> [] \<and> lines' @ [current'] = lines @ spec_cluster tol current ws"
  using assms
proof (induction ws arbitrary: lines current)
  case Nil
  then show ?case by simp
next
  case (Cons w ws)
  show ?case
  proof (cases "\<bar>w_top w - mean (map w_top current)\<bar> \<le> tol")
    case True
    from Cons.IH [of "current @ [w]" lines] True show ?thesis
      unfolding group_loop_step [OF Cons.prems] by simp
  next
    case False
    from Cons.IH [of "[w]" "lines @ [current]"] False show ?thesis
      unfolding group_loop_step [OF Cons.prems] by (simp add: mean_single)
  qed
qed

lemma group_loop_first:
  "group_loop tol (w # ws) ([], [], None) =
     group_loop tol ws ([], [w], Some (w_top w))"
  by simp

lemma group_words_refines:
  "group_words_into_lines words tol = spec_group_words_into_lines words tol"
proof (cases "sort_key (\<lambda>w. (w_top w, w_x0 w)) words")
  case Nil
  then have "words = []"
    by (metis length_sort list.size(3) length_0_conv)
  then show ?thesis
    by (simp add: group_words_into_lines_def spec_group_words_into_lines_def)
next
  case (Cons w ws)
  then have ne: "words \<noteq> []"
    by auto
  from group_loop_clusters [of "[w]" tol ws "[]"] obtain lines' current' where
    g: "group_loop tol ws ([], [w], Some (w_top w)) =
          (lines', current', Some (mean (map w_top current')))"
    and c: "current' \<noteq> []" "lines' @ [current'] = spec_cluster tol [w] ws"
    by (auto simp: mean_single)
  show ?thesis
    using ne c
    by (simp add: group_words_into_lines_def spec_group_words_into_lines_def Cons
        group_loop_first g del: group_loop.simps)
qed

lemma concat_spec_cluster: "concat (spec_cluster tol cur ws) = cur @ ws"
  by (induction ws arbitrary: cur) simp_all

lemma spec_cluster_nonempty: "cur \<noteq> [] \<Longrightarrow> [] \<notin> set (spec_cluster tol cur ws)"
  by (induction ws arbitrary: cur) auto

text \<open>
  C4. \<^verbatim>\<open>group_words_into_lines\<close> sorts the words by (top, x0) and walks them in that
  order: a word joins the current cluster if and only if the distance of its top to the
  running average of the tops of the cluster is at most the tolerance, and the running
  average then includes the word; otherwise the cluster is closed and a new one opened
  with the word. The running average the loop keeps is the arithmetic mean of the tops
  of the cluster, the clusters in order make up the sorted words, and none is empty.
\<close>

theorem clusters_by_running_average:
  "group_words_into_lines words tol = spec_group_words_into_lines words tol \<and>
   concat (group_words_into_lines words tol) = sort_key (\<lambda>w. (w_top w, w_x0 w)) words \<and>
   [] \<notin> set (group_words_into_lines words tol) \<and>
   (current \<noteq> [] \<longrightarrow>
      group_loop tol (w # ws) (lines, current, Some (mean (map w_top current))) =
        (if \<bar>w_top w - mean (map w_top current)\<bar> \<le> tol
         then group_loop tol ws (lines, current @ [w], Some (mean (map w_top (current @ [w]))))
         else group_loop tol ws (lines @ [current], [w], Some (w_top w))))"
proof -
  have "concat (spec_group_words_into_lines words tol) = sort_key (\<lambda>w. (w_top w, w_x0 w)) words"
    by (simp add: spec_group_words_into_lines_def concat_spec_cluster split: list.splits)
  moreover have "[] \<notin> set (spec_group_words_into_lines words tol)"
    by (simp add: spec_group_words_into_lines_def spec_cluster_nonempty split: list.splits)
  ultimately show ?thesis
    using group_loop_step [of current tol w ws lines]
    by (simp add: group_words_refines del: group_loop.simps)
qed

theorem clusters_by_running_average_witness:
  "[scenario3_hello] \<noteq> [] \<and>
   mean (map w_top [scenario3_hello, scenario3_world]) = 401 / 4 \<and>
   group_loop 2 [scenario3_world, next_line_word] ([], [scenario3_hello], Some 100) =
     ([[scenario3_hello, scenario3_world]], [next_line_word], Some 120) \<and>
   group_words_into_lines [next_line_word, scenario3_world, scenario3_hello] 2 =
     [[scenario3_hello, scenario3_world], [next_line_word]]"
proof -
  have h: "[scenario3_hello] \<noteq> []"
    by simp
  have m: "mean (map w_top [scenario3_hello]) = 100"
    "mean (map w_top [scenario3_hello, scenario3_world]) = 401 / 4"
    by (simp_all add: mean_def w_top_def scenario3_hello_def scenario3_world_def get_or_def)
  have s: "sort_key (\<lambda>w. (w_top w, w_x0 w)) [next_line_word, scenario3_world, scenario3_hello] =
      [scenario3_hello, scenario3_world, next_line_word]"
    by (simp add: w_top_def w_x0_def scenario3_hello_def scenario3_world_def next_line_word_def
        get_or_def)
  note t = clusters_by_running_average
    [of "[next_line_word, scenario3_world, scenario3_hello]" 2 "[scenario3_hello]"
       scenario3_world "[next_line_word]" "[]"]
  from t h have "group_loop 2 [scenario3_world, next_line_word] ([], [scenario3_hello], Some 100) =
      ([[scenario3_hello, scenario3_world]], [next_line_word], Some 120)"
    by (simp add: m w_top_def scenario3_hello_def scenario3_world_def next_line_word_def
        get_or_def)
  moreover from t have "group_words_into_lines [next_line_word, scenario3_world, scenario3_hello] 2 =
      [[scenario3_hello, scenario3_world], [next_line_word]]"
    by (simp add: spec_group_words_into_lines_def s mean_def w_top_def scenario3_hello_def
        scenario3_world_def next_line_word_def get_or_def)
  ultimately show ?thesis
    using m by simp
qed

section \<open>Spacing reconstruction\<close>

lemma spacing_loop_step:
  "spacing_loop su ms (w # ws) (parts, prev_x1, last_x1) =
     spacing_loop su ms ws
       (parts @ [separator su ms (w_x0 w - prev_x1), w_text w],
        max prev_x1 (w_x1 w), max last_x1 (w_x1 w))"
  by (simp add: separator_def Let_def w_x1_def w_x0_def)

lemma max_Max_insert:
  assumes "finite S"
  shows "max a (Max (insert b S)) = Max (insert (max a b) S)"
proof (cases "S = {}")
  case True
  then show ?thesis by simp
next
  case False
  with assms show ?thesis
    by (simp add: max.assoc)
qed

lemma spacing_loop_text:
  "\<exists>prev' last'.
     spacing_loop su ms ws (parts, prev, lst) =
       (parts @ concat (map (\<lambda>i. [separator su ms
                                  (w_x0 (ws ! i) - Max (insert prev (w_x1 ` set (take i ws)))),
                                w_text (ws ! i)])
                       [0..<length ws]),
        prev', last')"
proof (induction ws arbitrary: parts prev lst)
  case Nil
  show ?case by simp
next
  case (Cons w ws)
  have shift: "map f [0..<length (w # ws)] = f 0 # map (\<lambda>i. f (Suc i)) [0..<length ws]"
    for f :: "nat \<Rightarrow> string list"
    unfolding length_Cons by (rule map_upt_Suc)
  from Cons.IH [of "parts @ [separator su ms (w_x0 w - prev), w_text w]"
      "max prev (w_x1 w)" "max lst (w_x1 w)"]
  show ?case
    unfolding spacing_loop_step shift
    by (simp add: max_Max_insert)
qed

lemma concat_concat_pairs:
  "concat (concat (map (\<lambda>i. [f i, g i]) is)) = concat (map (\<lambda>i. f i @ g i) is)"
  by (induction "is") simp_all

lemma map_shift_one:
  "map f [1..<Suc n] = map (\<lambda>i. f (Suc i)) [0..<n]"
proof -
  have "[1..<Suc n] = map Suc [0..<n]"
    unfolding One_nat_def by (rule map_Suc_upt [symmetric])
  then show ?thesis
    by (simp only: map_map o_def)
qed

lemma build_line_text_text:
  assumes "line_words \<noteq> []"
  shows "\<exists>fx0 lx1 tm fs.
     build_line_text line_words su ms =
       Inr (running_max_text su ms (sort_key w_x0 line_words), fx0, lx1, tm, fs)"
proof -
  from assms have "sort_key w_x0 line_words \<noteq> []"
    by (metis length_sort length_0_conv)
  then obtain w0 rest where sw: "sort_key w_x0 line_words = w0 # rest"
    by (cases "sort_key w_x0 line_words") auto
  from spacing_loop_text [of su ms rest "[w_text w0]" "w_x1 w0" "w_x1 w0"]
  obtain prev' last' where
    l: "spacing_loop su ms rest ([w_text w0], w_x1 w0, w_x1 w0) =
          ([w_text w0] @ concat (map (\<lambda>i. [separator su ms
                                  (w_x0 (rest ! i) - Max (insert (w_x1 w0) (w_x1 ` set (take i rest)))),
                                w_text (rest ! i)])
                       [0..<length rest]), prev', last')"
    by blast
  have r: "running_max_text su ms (w0 # rest) =
      w_text w0 @ concat (map (\<lambda>i. separator su ms
                                  (w_x0 (rest ! i) - Max (insert (w_x1 w0) (w_x1 ` set (take i rest))))
                                @ w_text (rest ! i))
                       [0..<length rest])"
    unfolding running_max_text_def length_Cons map_shift_one by simp
  show ?thesis
    unfolding build_line_text_def sw r
    by (simp add: l Let_def concat_concat_pairs del: spacing_loop.simps)
qed

lemma Max_take_sorted:
  assumes "sorted (map f xs)" and "0 < i" and "i \<le> length xs"
  shows "Max (f ` set (take i xs)) = f (xs ! (i - 1))"
proof -
  from assms(2,3) have "i - 1 < length (take i xs)" "take i xs ! (i - 1) = xs ! (i - 1)"
    by simp_all
  then have last: "xs ! (i - 1) \<in> set (take i xs)"
    by (metis nth_mem)
  have "f y \<le> f (xs ! (i - 1))" if "y \<in> set (take i xs)" for y
  proof -
    from that obtain j where j: "j < i" "j < length xs" "y = xs ! j"
      by (auto simp: in_set_conv_nth)
    with assms(2,3) have "j \<le> i - 1" "i - 1 < length (map f xs)"
      by simp_all
    from sorted_nth_mono [OF assms(1) this] j assms(2,3) show ?thesis
      by simp
  qed
  with last show ?thesis
    by (intro Max_eqI) auto
qed

lemma running_max_is_claimed:
  assumes "sorted (map w_x1 sw)"
  shows "running_max_text su ms sw = claimed_text su ms sw"
proof -
  have "Max (w_x1 ` set (take i sw)) = w_x1 (sw ! (i - 1))" if "i \<in> set [1..<length sw]" for i
    using that Max_take_sorted [OF assms, of i] by simp
  then have "map (\<lambda>i. separator su ms (w_x0 (sw ! i) - Max (w_x1 ` set (take i sw))) @ w_text (sw ! i))
        [1..<length sw] =
      map (\<lambda>i. separator su ms (w_x0 (sw ! i) - w_x1 (sw ! (i - 1))) @ w_text (sw ! i))
        [1..<length sw]"
    by (intro map_cong refl) simp
  then show ?thesis
    by (simp only: running_max_text_def claimed_text_def)
qed

lemma replicate_three: "replicate 3 x = [x, x, x]"
  by (simp add: numeral_3_eq_3)

lemma py_round_10_3: "py_round (10 / 3) = 3"
proof -
  have "\<lfloor>10 / 3 :: real\<rfloor> = 3"
    by linarith
  then show ?thesis
    by (simp add: py_round_def Let_def)
qed

lemma overlapping_sorted: "sort_key w_x0 overlapping_words = overlapping_words"
  by (simp add: overlapping_words_def glyph_def w_x0_def get_or_def)

text \<open>
  C3 (as amended). \<^verbatim>\<open>build_line_text\<close> sorts the words of the cluster by x0. Before
  every word after the first, the gap is the x0 of the word minus the largest x1 among
  the words before it in the cluster; this is the x1 of the previous word whenever x1
  does not decrease along the sorted cluster. For a gap above 0 it inserts
  \<open>round(gap / max(0.5, spaceUnitPts))\<close> spaces, and at least \<open>minSpaces\<close>; for a gap of
  at most 0 it inserts one space if the gap is above \<open>-0.3 * spaceUnitPts\<close>, and nothing
  otherwise.
\<close>

theorem spacing_from_running_max:
  "(line_words \<noteq> [] \<longrightarrow>
      (\<exists>fx0 lx1 tm fs.
         build_line_text line_words su ms =
           Inr (running_max_text su ms (sort_key w_x0 line_words), fx0, lx1, tm, fs))) \<and>
   (sorted (map w_x1 (sort_key w_x0 line_words)) \<longrightarrow>
      running_max_text su ms (sort_key w_x0 line_words) =
        claimed_text su ms (sort_key w_x0 line_words)) \<and>
   (gap > 0 \<longrightarrow>
      separator su ms gap = replicate (nat (max ms (py_round (gap / max (1 / 2) su)))) CHR '' '') \<and>
   (gap \<le> 0 \<and> gap > - (3 / 10) * su \<longrightarrow> separator su ms gap = '' '') \<and>
   (gap \<le> 0 \<and> gap \<le> - (3 / 10) * su \<longrightarrow> separator su ms gap = [])"
  using build_line_text_text [of line_words su ms]
    running_max_is_claimed [of "sort_key w_x0 line_words" su ms]
  by (simp add: separator_def)

theorem spacing_from_running_max_witness:
  "[scenario3_hello, scenario3_world] \<noteq> [] \<and>
   sorted (map w_x1 (sort_key w_x0 [scenario3_hello, scenario3_world])) \<and>
   running_max_text 5 1 (sort_key w_x0 [scenario3_hello, scenario3_world]) = ''Hello  World'' \<and>
   claimed_text 5 1 (sort_key w_x0 [scenario3_hello, scenario3_world]) = ''Hello  World'' \<and>
   (10::real) > 0 \<and> separator 5 1 10 = ''  '' \<and>
   (-1::real) \<le> 0 \<and> (-1::real) > - (3 / 10) * 5 \<and> separator 5 1 (-1) = '' '' \<and>
   (-2::real) \<le> 0 \<and> (-2::real) \<le> - (3 / 10) * 5 \<and> separator 5 1 (-2) = []"
proof -
  have h1: "[scenario3_hello, scenario3_world] \<noteq> []"
    by simp
  have s: "sort_key w_x0 [scenario3_hello, scenario3_world] = [scenario3_hello, scenario3_world]"
    by (simp add: word_defs)
  have h2: "sorted (map w_x1 (sort_key w_x0 [scenario3_hello, scenario3_world]))"
    unfolding s by (simp add: word_defs)
  have g: "(10::real) > 0" "(-1::real) \<le> 0 \<and> (-1::real) > - (3 / 10) * 5"
    "(-2::real) \<le> 0 \<and> (-2::real) \<le> - (3 / 10) * 5"
    by simp_all
  note a = spacing_from_running_max [of "[scenario3_hello, scenario3_world]" 5 1 10]
  note b = spacing_from_running_max [of "[scenario3_hello, scenario3_world]" 5 1 "-1"]
  note c = spacing_from_running_max [of "[scenario3_hello, scenario3_world]" 5 1 "-2"]
  from a h1 have t: "running_max_text 5 1 (sort_key w_x0 [scenario3_hello, scenario3_world]) =
      ''Hello  World''"
    by (simp add: scenario3_build)
  from a h2 t have t': "claimed_text 5 1 (sort_key w_x0 [scenario3_hello, scenario3_world]) =
      ''Hello  World''"
    by simp
  from a g(1) have s1: "separator 5 1 10 = ''  ''"
    by (simp add: py_round_def replicate_two)
  from b g(2) have s2: "separator 5 1 (-1) = '' ''"
    by simp
  from c g(3) have s3: "separator 5 1 (-2) = []"
    by simp
  from h1 h2 t t' g s1 s2 s3 show ?thesis
    by simp
qed

text \<open>
  C3 as stated, with the gap measured from the previous word, fails when an earlier word
  reaches further right than the previous one: for A from 0 to 100, B from 10 to 20 and
  C from 30 to 40 the gap before C would be 10 and give three spaces, and the source
  measures it from 100 and inserts nothing.
\<close>

theorem previous_word_gap_counterexample:
  "build_line_text overlapping_words 3 1 = Inr (''ABC'', 0, 100, 0, 10) \<and>
   claimed_text 3 1 (sort_key w_x0 overlapping_words) = ''AB   C''"
proof -
  have "build_line_text overlapping_words 3 1 = Inr (''ABC'', 0, 100, 0, 10)"
    by (simp add: build_line_text_def overlapping_words_def glyph_def w_x0_def w_x1_def
        w_top_def w_text_def get_or_def List.map_filter_def Let_def)
  moreover have "claimed_text 3 1 (sort_key w_x0 overlapping_words) = ''AB   C''"
    unfolding overlapping_sorted
    by (simp add: claimed_text_def overlapping_words_def separator_def glyph_def w_x0_def
        w_x1_def w_text_def get_or_def upt_conv_Cons py_round_10_3 replicate_three)
  ultimately show ?thesis
    by simp
qed


end
